theory Spec2Isabelle
  imports Complex_Main "HOL-Library.Word"
begin

section \<open>Data model\<close>

text \<open>
  The kitchen simulation keeps its objects on the C++ heap and refers to them by raw
  pointers: a station holds \<^verbatim>\<open>std::vector<Dish*>\<close>, the manager is a
  \<^verbatim>\<open>LinkedList<KitchenStation*>\<close>. A pointer is modelled as \<open>nullptr\<close> or an
  address; the live objects of each class are a partial map from addresses to values,
  and \<^verbatim>\<open>delete\<close> removes an address from that map. Dereferencing a null or
  freed pointer, and freeing a pointer twice, is undefined behaviour in C++; the model
  makes it a value of type \<open>fault\<close>, returned as \<open>Inl\<close>.

  The C++ type \<^verbatim>\<open>int\<close> is a 32-bit word, \<open>int32\<close>, read as a two's complement
  number by \<open>sint\<close>: \<^verbatim>\<open>+=\<close> and \<^verbatim>\<open>-=\<close> are the additions and subtractions
  of words, which wrap around as the compiled program does (the C++ standard leaves
  signed overflow undefined), and \<^verbatim>\<open>>=\<close> and \<^verbatim>\<open><=\<close> compare the signed
  values. The \<^verbatim>\<open>double\<close> fields are only stored and copied by the functions
  modelled here, and are carried as \<open>real\<close>.
\<close>

type_synonym int32 = "32 word"

datatype ptr = nullptr | Addr nat

datatype fault = NullDereference | UseAfterFree | DoubleFree

datatype CuisineType = ITALIAN | MEXICAN | CHINESE | INDIAN | AMERICAN | FRENCH | OTHER

text \<open>
  The private members of the classes lose their trailing underscore (a record field
  cannot end in one); \<^verbatim>\<open>name_\<close> and \<^verbatim>\<open>price_\<close> of \<^verbatim>\<open>Dish\<close> become
  \<open>dish_name\<close> and \<open>dish_price\<close>, and the parameters \<^verbatim>\<open>dish_name\<close> and
  \<^verbatim>\<open>station_name\<close> are written \<open>dname\<close> and \<open>sname\<close>.
  \<^verbatim>\<open>struct Ingredient\<close> is declared in Dish.hpp; its fields are the ones the
  sources read (\<^verbatim>\<open>name\<close>, \<^verbatim>\<open>quantity\<close>, \<^verbatim>\<open>required_quantity\<close>) and the
  fourth constructor argument used in main.cpp.
\<close>

record Ingredient =
  name :: string
  quantity :: int32
  required_quantity :: int32
  price :: real

record Dish =
  dish_name :: string
  ingredients :: "Ingredient list"
  prep_time :: int32
  dish_price :: real
  cuisine_type :: CuisineType

record KitchenStation =
  station_name :: string
  dishes :: "ptr list"
  ingredients_stock :: "Ingredient list"

type_synonym dish_heap = "nat \<rightharpoonup> Dish"
type_synonym station_heap = "nat \<rightharpoonup> KitchenStation"

fun deref :: "(nat \<rightharpoonup> 'a) \<Rightarrow> ptr \<Rightarrow> fault + 'a" where
  "deref h nullptr = Inl NullDereference"
| "deref h (Addr a) = (case h a of None \<Rightarrow> Inl UseAfterFree | Some v \<Rightarrow> Inr v)"

section \<open>KitchenStation\<close>

subsection \<open>assignDishToStation\<close>

text \<open>The loop that compares the new pointer with every assigned pointer.\<close>

fun already_assigned :: "ptr list \<Rightarrow> ptr \<Rightarrow> bool" where
  "already_assigned [] dish = False"
| "already_assigned (assigned_dish # rest) dish =
     (if assigned_dish = dish then True else already_assigned rest dish)"

definition assignDishToStation :: "KitchenStation \<Rightarrow> ptr \<Rightarrow> bool \<times> KitchenStation" where
  "assignDishToStation s dish =
     (if already_assigned (dishes s) dish then (False, s)
      else (True, s\<lparr>dishes := dishes s @ [dish]\<rparr>))"

subsection \<open>replenishStationIngredients\<close>

text \<open>
  The loop over the stock: the first entry of the same name gets the incoming quantity
  added and the function returns; when the loop ends without a match the ingredient is
  pushed at the back.
\<close>

fun replenish_stock :: "Ingredient list \<Rightarrow> Ingredient \<Rightarrow> Ingredient list" where
  "replenish_stock [] ingredient = [ingredient]"
| "replenish_stock (stock_ingredient # rest) ingredient =
     (if name stock_ingredient = name ingredient
      then stock_ingredient\<lparr>quantity := quantity stock_ingredient + quantity ingredient\<rparr> # rest
      else stock_ingredient # replenish_stock rest ingredient)"

definition replenishStationIngredients :: "KitchenStation \<Rightarrow> Ingredient \<Rightarrow> KitchenStation" where
  "replenishStationIngredients s ingredient =
     s\<lparr>ingredients_stock := replenish_stock (ingredients_stock s) ingredient\<rparr>"

subsection \<open>canCompleteOrder\<close>

text \<open>The innermost loop: it sets \<^verbatim>\<open>found\<close> at the first stock entry of the same
  name that holds at least the required quantity.\<close>

fun found_in_stock :: "Ingredient list \<Rightarrow> Ingredient \<Rightarrow> bool" where
  "found_in_stock [] ingredient = False"
| "found_in_stock (stock_ingredient # rest) ingredient =
     (if name stock_ingredient = name ingredient
         \<and> sint (quantity stock_ingredient) \<ge> sint (required_quantity ingredient)
      then True else found_in_stock rest ingredient)"

text \<open>The loop over the ingredients of the dish: false at the first one not found.\<close>

fun all_found :: "Ingredient list \<Rightarrow> Ingredient list \<Rightarrow> bool" where
  "all_found stock [] = True"
| "all_found stock (ingredient # rest) =
     (if \<not> found_in_stock stock ingredient then False else all_found stock rest)"

text \<open>The loop over the roster: the first dish of the given name decides.\<close>

fun can_complete_loop :: "dish_heap \<Rightarrow> Ingredient list \<Rightarrow> ptr list \<Rightarrow> string \<Rightarrow> fault + bool" where
  "can_complete_loop h stock [] dname = Inr False"
| "can_complete_loop h stock (dish # rest) dname =
     (case deref h dish of
        Inl e \<Rightarrow> Inl e
      | Inr d \<Rightarrow>
          if dish_name d = dname then Inr (all_found stock (ingredients d))
          else can_complete_loop h stock rest dname)"

definition canCompleteOrder :: "dish_heap \<Rightarrow> KitchenStation \<Rightarrow> string \<Rightarrow> fault + bool" where
  "canCompleteOrder h s dname =
     can_complete_loop h (ingredients_stock s) (dishes s) dname"

subsection \<open>prepareDish\<close>

text \<open>
  The inner loop over the stock for one ingredient of the dish: the first entry of the
  same name has the required quantity subtracted, is set to 0 when the difference is not
  positive, and the loop breaks.
\<close>

fun consume :: "Ingredient list \<Rightarrow> Ingredient \<Rightarrow> Ingredient list" where
  "consume [] dish_ingredient = []"
| "consume (stock_ingredient # rest) dish_ingredient =
     (if name dish_ingredient = name stock_ingredient
      then (let q = quantity stock_ingredient - required_quantity dish_ingredient
            in stock_ingredient\<lparr>quantity := (if sint q \<le> 0 then 0 else q)\<rparr>) # rest
      else stock_ingredient # consume rest dish_ingredient)"

fun consume_all :: "Ingredient list \<Rightarrow> Ingredient list \<Rightarrow> Ingredient list" where
  "consume_all stock [] = stock"
| "consume_all stock (dish_ingredient # rest) = consume_all (consume stock dish_ingredient) rest"

text \<open>
  The loop over the roster. It has no \<^verbatim>\<open>break\<close>: every dish of the given name
  has its ingredients consumed.
\<close>

fun prepare_loop :: "dish_heap \<Rightarrow> ptr list \<Rightarrow> string \<Rightarrow> Ingredient list \<Rightarrow> fault + Ingredient list" where
  "prepare_loop h [] dname stock = Inr stock"
| "prepare_loop h (dish # rest) dname stock =
     (case deref h dish of
        Inl e \<Rightarrow> Inl e
      | Inr d \<Rightarrow>
          if dish_name d = dname
          then prepare_loop h rest dname (consume_all stock (ingredients d))
          else prepare_loop h rest dname stock)"

text \<open>\<^verbatim>\<open>erase(remove_if(...))\<close> with the predicate \<^verbatim>\<open>quantity == 0\<close>.\<close>

definition remove_depleted :: "Ingredient list \<Rightarrow> Ingredient list" where
  "remove_depleted stock = filter (\<lambda>ingredient. quantity ingredient \<noteq> 0) stock"

definition prepareDish :: "dish_heap \<Rightarrow> KitchenStation \<Rightarrow> string \<Rightarrow> fault + (bool \<times> KitchenStation)" where
  "prepareDish h s dname =
     (case canCompleteOrder h s dname of
        Inl e \<Rightarrow> Inl e
      | Inr can \<Rightarrow>
          if \<not> can then Inr (False, s)
          else (case prepare_loop h (dishes s) dname (ingredients_stock s) of
                  Inl e \<Rightarrow> Inl e
                | Inr stock \<Rightarrow> Inr (True, s\<lparr>ingredients_stock := remove_depleted stock\<rparr>)))"

section \<open>StationManager\<close>

text \<open>
  The state of the program as far as the manager sees it: the entries of its linked list
  from front to back, and the live \<^verbatim>\<open>KitchenStation\<close> and \<^verbatim>\<open>Dish\<close> objects.
\<close>

record bistro =
  entries :: "ptr list"
  stations :: station_heap
  dish_store :: dish_heap

subsection \<open>The linked list\<close>

text \<open>
  Modelled from the spec: \<^verbatim>\<open>LinkedList<T>\<close> (LinkedList.hpp) is not among the
  sources. The spec describes it as an ordered sequence with indexed insert, indexed
  remove, indexed get and a length query, in insertion order. \<open>LinkedList_insert\<close>
  puts the item before the entry at the position (at the back when the position is the
  length) and \<open>LinkedList_remove\<close> takes the entry at the position out; both leave
  the list alone and return false when the position is out of range.
\<close>

definition getLength :: "ptr list \<Rightarrow> nat" where
  "getLength xs = length xs"

definition LinkedList_insert :: "ptr list \<Rightarrow> nat \<Rightarrow> ptr \<Rightarrow> bool \<times> ptr list" where
  "LinkedList_insert xs position item =
     (if position \<le> length xs then (True, take position xs @ item # drop position xs)
      else (False, xs))"

definition LinkedList_remove :: "ptr list \<Rightarrow> nat \<Rightarrow> bool \<times> ptr list" where
  "LinkedList_remove xs position =
     (if position < length xs then (True, take position xs @ drop (Suc position) xs)
      else (False, xs))"

subsection \<open>Scanning for a station by name\<close>

text \<open>
  \<^verbatim>\<open>removeStation\<close>, \<^verbatim>\<open>findStation\<close> and \<^verbatim>\<open>moveStationToFront\<close> run the
  same loop: \<^verbatim>\<open>for (int i = 0; i < getLength(); i++)\<close>, reading
  \<^verbatim>\<open>getEntry(i)\<close> and stopping at the first entry that is not null and whose
  station has the given name. \<open>first_named\<close> is that loop over the entries from
  position \<open>i\<close> on; it yields the position and the pointer where the loop stops, or
  \<open>None\<close> when it runs to the end.
\<close>

fun first_named :: "station_heap \<Rightarrow> ptr list \<Rightarrow> string \<Rightarrow> nat \<Rightarrow> fault + (nat \<times> ptr) option" where
  "first_named sh [] sname i = Inr None"
| "first_named sh (nullptr # rest) sname i = first_named sh rest sname (Suc i)"
| "first_named sh (Addr a # rest) sname i =
     (case sh a of
        None \<Rightarrow> Inl UseAfterFree
      | Some station \<Rightarrow>
          if station_name station = sname then Inr (Some (i, Addr a))
          else first_named sh rest sname (Suc i))"

subsection \<open>addStation, findStation\<close>

definition addStation :: "bistro \<Rightarrow> ptr \<Rightarrow> bool \<times> bistro" where
  "addStation b station =
     (case LinkedList_insert (entries b) (getLength (entries b)) station of
        (ok, xs) \<Rightarrow> (ok, b\<lparr>entries := xs\<rparr>))"

definition findStation :: "bistro \<Rightarrow> string \<Rightarrow> fault + ptr" where
  "findStation b sname =
     (case first_named (stations b) (entries b) sname 0 of
        Inl e \<Rightarrow> Inl e
      | Inr None \<Rightarrow> Inr nullptr
      | Inr (Some (i, station)) \<Rightarrow> Inr station)"

subsection \<open>removeStation\<close>

text \<open>
  \<^verbatim>\<open>delete station\<close> runs the destructor of the station, which deletes every dish
  of its roster, and then frees the station. Deleting a null pointer does nothing.
\<close>

fun delete_dishes :: "dish_heap \<Rightarrow> ptr list \<Rightarrow> fault + dish_heap" where
  "delete_dishes dh [] = Inr dh"
| "delete_dishes dh (nullptr # rest) = delete_dishes dh rest"
| "delete_dishes dh (Addr a # rest) =
     (case dh a of
        None \<Rightarrow> Inl DoubleFree
      | Some d \<Rightarrow> delete_dishes (dh(a := None)) rest)"

fun delete_station :: "bistro \<Rightarrow> ptr \<Rightarrow> fault + bistro" where
  "delete_station b nullptr = Inr b"
| "delete_station b (Addr a) =
     (case stations b a of
        None \<Rightarrow> Inl DoubleFree
      | Some station \<Rightarrow>
          (case delete_dishes (dish_store b) (dishes station) of
             Inl e \<Rightarrow> Inl e
           | Inr dh \<Rightarrow> Inr (b\<lparr>stations := (stations b)(a := None), dish_store := dh\<rparr>)))"

definition removeStation :: "bistro \<Rightarrow> string \<Rightarrow> fault + (bool \<times> bistro)" where
  "removeStation b sname =
     (case first_named (stations b) (entries b) sname 0 of
        Inl e \<Rightarrow> Inl e
      | Inr None \<Rightarrow> Inr (False, b)
      | Inr (Some (i, station)) \<Rightarrow>
          (case delete_station b station of
             Inl e \<Rightarrow> Inl e
           | Inr b' \<Rightarrow>
               (case LinkedList_remove (entries b') i of
                  (ok, xs) \<Rightarrow> Inr (ok, b'\<lparr>entries := xs\<rparr>))))"

subsection \<open>moveStationToFront\<close>

definition moveStationToFront :: "bistro \<Rightarrow> string \<Rightarrow> fault + (bool \<times> bistro)" where
  "moveStationToFront b sname =
     (case first_named (stations b) (entries b) sname 0 of
        Inl e \<Rightarrow> Inl e
      | Inr None \<Rightarrow> Inr (False, b)
      | Inr (Some (i, station)) \<Rightarrow>
          (case LinkedList_remove (entries b) i of
             (removed, xs) \<Rightarrow>
               (case LinkedList_insert xs 0 station of
                  (ok, ys) \<Rightarrow> Inr (ok, b\<lparr>entries := ys\<rparr>))))"

subsection \<open>mergeStations\<close>

text \<open>The two loops of the merge: over the dishes and over the stock of the second
  station. The result of \<^verbatim>\<open>assignDishToStation\<close> is dropped, as in the source.\<close>

fun assign_all :: "KitchenStation \<Rightarrow> ptr list \<Rightarrow> KitchenStation" where
  "assign_all station1 [] = station1"
| "assign_all station1 (dish # rest) = assign_all (snd (assignDishToStation station1 dish)) rest"

fun replenish_all :: "KitchenStation \<Rightarrow> Ingredient list \<Rightarrow> KitchenStation" where
  "replenish_all station1 [] = station1"
| "replenish_all station1 (ingredient # rest) =
     replenish_all (replenishStationIngredients station1 ingredient) rest"

definition mergeStations :: "bistro \<Rightarrow> string \<Rightarrow> string \<Rightarrow> fault + (bool \<times> bistro)" where
  "mergeStations b sname1 sname2 =
     (case findStation b sname1 of
        Inl e \<Rightarrow> Inl e
      | Inr station1 \<Rightarrow>
     (case findStation b sname2 of
        Inl e \<Rightarrow> Inl e
      | Inr station2 \<Rightarrow>
          if station1 \<noteq> nullptr \<and> station2 \<noteq> nullptr \<and> station1 \<noteq> station2 then
            (case deref (stations b) station1 of
               Inl e \<Rightarrow> Inl e
             | Inr s1 \<Rightarrow>
            (case deref (stations b) station2 of
               Inl e \<Rightarrow> Inl e
             | Inr s2 \<Rightarrow>
                 (let merged = replenish_all (assign_all s1 (dishes s2)) (ingredients_stock s2);
                      b1 = (case station1 of
                              nullptr \<Rightarrow> b
                            | Addr a1 \<Rightarrow> b\<lparr>stations := (stations b)(a1 \<mapsto> merged)\<rparr>)
                  in (case removeStation b1 sname2 of
                        Inl e \<Rightarrow> Inl e
                      | Inr (removed, b2) \<Rightarrow> Inr (True, b2)))))
          else Inr (False, b)))"

section \<open>Notions used to state the properties\<close>

text \<open>A roster is live when every pointer in it refers to a dish that has not been freed.\<close>

definition roster_live :: "dish_heap \<Rightarrow> KitchenStation \<Rightarrow> bool" where
  "roster_live h s = (\<forall>p \<in> set (dishes s). \<exists>d. deref h p = Inr d)"

text \<open>A sequence of \<^verbatim>\<open>prepareDish\<close> calls on one station, the results dropped.\<close>

fun prepare_many :: "dish_heap \<Rightarrow> KitchenStation \<Rightarrow> string list \<Rightarrow> fault + KitchenStation" where
  "prepare_many h s [] = Inr s"
| "prepare_many h s (dname # rest) =
     (case prepareDish h s dname of
        Inl e \<Rightarrow> Inl e
      | Inr (ok, s') \<Rightarrow> prepare_many h s' rest)"

text \<open>The stock entry of a name: the first entry of that name, which is the one that
  \<^verbatim>\<open>replenishStationIngredients\<close> and \<^verbatim>\<open>prepareDish\<close> change.\<close>

fun stock_entry :: "Ingredient list \<Rightarrow> string \<Rightarrow> Ingredient option" where
  "stock_entry [] n = None"
| "stock_entry (e # rest) n = (if name e = n then Some e else stock_entry rest n)"

text \<open>The dishes of a roster, in roster order (pointers that are not live are skipped).\<close>

fun live_dishes :: "dish_heap \<Rightarrow> ptr list \<Rightarrow> Dish list" where
  "live_dishes h [] = []"
| "live_dishes h (p # ps) =
     (case deref h p of Inl e \<Rightarrow> live_dishes h ps | Inr d \<Rightarrow> d # live_dishes h ps)"

definition roster_dishes :: "dish_heap \<Rightarrow> KitchenStation \<Rightarrow> Dish list" where
  "roster_dishes h s = live_dishes h (dishes s)"

text \<open>
  The feasibility condition in the words of the specification: the stock contains an
  entry of the same name with \<open>quantity \<ge> requiredQuantity\<close>. It is stated once for
  some dish of the given name in the roster, and once for the first such dish.
\<close>

definition in_stock :: "KitchenStation \<Rightarrow> Ingredient \<Rightarrow> bool" where
  "in_stock s i =
     (\<exists>e \<in> set (ingredients_stock s). name e = name i \<and> sint (quantity e) \<ge> sint (required_quantity i))"

definition some_dish_can_be_completed :: "dish_heap \<Rightarrow> KitchenStation \<Rightarrow> string \<Rightarrow> bool" where
  "some_dish_can_be_completed h s dname =
     (\<exists>d \<in> set (roster_dishes h s).
        dish_name d = dname \<and> (\<forall>i \<in> set (ingredients d). in_stock s i))"

definition first_dish_can_be_completed :: "dish_heap \<Rightarrow> KitchenStation \<Rightarrow> string \<Rightarrow> bool" where
  "first_dish_can_be_completed h s dname =
     (case find (\<lambda>d. dish_name d = dname) (roster_dishes h s) of
        None \<Rightarrow> False
      | Some d \<Rightarrow> \<forall>i \<in> set (ingredients d). in_stock s i)"

text \<open>
  The effect of a preparation on the stock entry of a required ingredient, in the words
  of the specification: the quantity is reduced by exactly the required quantity (the
  new quantity is the difference of the two numbers), and the entry is gone when that
  leaves exactly 0.
\<close>

definition consumed :: "Ingredient list \<Rightarrow> Ingredient list \<Rightarrow> Ingredient \<Rightarrow> bool" where
  "consumed before after i =
     (case stock_entry before (name i) of
        None \<Rightarrow> False
      | Some e \<Rightarrow>
          sint (quantity e - required_quantity i) = sint (quantity e) - sint (required_quantity i)
          \<and> stock_entry after (name i) =
                (if quantity e - required_quantity i = 0 then None
                 else Some (e\<lparr>quantity := quantity e - required_quantity i\<rparr>)))"

text \<open>The subtraction of the required quantity from the quantity of the stock entry of
  that name stays within the range of \<^verbatim>\<open>int\<close>.\<close>

definition subtraction_in_range :: "Ingredient list \<Rightarrow> Ingredient \<Rightarrow> bool" where
  "subtraction_in_range stock i =
     (case stock_entry stock (name i) of
        None \<Rightarrow> True
      | Some e \<Rightarrow> sint (quantity e) - sint (required_quantity i) < 2 ^ 31)"

subsection \<open>Notions about the manager\<close>

text \<open>An entry of the list is well-formed when it is null or points to a station that has
  not been freed; the manager is valid when all its entries are.\<close>

definition live_or_null :: "station_heap \<Rightarrow> ptr \<Rightarrow> bool" where
  "live_or_null sh p = (case p of nullptr \<Rightarrow> True | Addr a \<Rightarrow> sh a \<noteq> None)"

definition valid_manager :: "bistro \<Rightarrow> bool" where
  "valid_manager b = (\<forall>p \<in> set (entries b). live_or_null (stations b) p)"

text \<open>The entry points to a live station of the given name.\<close>

definition named_station :: "station_heap \<Rightarrow> string \<Rightarrow> ptr \<Rightarrow> bool" where
  "named_station sh sname p =
     (case p of
        nullptr \<Rightarrow> False
      | Addr a \<Rightarrow> (case sh a of None \<Rightarrow> False | Some station \<Rightarrow> station_name station = sname))"

text \<open>The quantity a stock holds of a name: the sum over its entries of that name.\<close>

definition stock_total :: "Ingredient list \<Rightarrow> string \<Rightarrow> int32" where
  "stock_total stock n = sum_list (map quantity (filter (\<lambda>e. name e = n) stock))"

text \<open>The first station after the two loops of \<^verbatim>\<open>mergeStations\<close>.\<close>

definition merged :: "KitchenStation \<Rightarrow> KitchenStation \<Rightarrow> KitchenStation" where
  "merged s1 s2 = replenish_all (assign_all s1 (dishes s2)) (ingredients_stock s2)"

subsection \<open>Example objects\<close>

text \<open>
  The scenario of the specification: the station Grill with the dish Sandwich, which
  requires two tomatoes. Two more dishes: a second dish that is also named Sandwich and
  requires one lettuce, a salad whose list of ingredients names the tomato twice, and a
  dish whose required quantity of tomatoes is the least \<^verbatim>\<open>int\<close>.
\<close>

definition tomato :: "int32 \<Rightarrow> Ingredient" where
  "tomato q = \<lparr>name = ''Tomato'', quantity = q, required_quantity = 2, price = 1 / 2\<rparr>"

definition lettuce :: "int32 \<Rightarrow> Ingredient" where
  "lettuce q = \<lparr>name = ''Lettuce'', quantity = q, required_quantity = 1, price = 3 / 10\<rparr>"

definition sandwich :: Dish where
  "sandwich = \<lparr>dish_name = ''Sandwich'', ingredients = [tomato 0], prep_time = 15,
                dish_price = 12, cuisine_type = AMERICAN\<rparr>"

definition lettuce_sandwich :: Dish where
  "lettuce_sandwich = \<lparr>dish_name = ''Sandwich'', ingredients = [lettuce 0], prep_time = 5,
                        dish_price = 8, cuisine_type = FRENCH\<rparr>"

definition double_salad :: Dish where
  "double_salad = \<lparr>dish_name = ''Salad'', ingredients = [tomato 0, tomato 0], prep_time = 10,
                    dish_price = 9, cuisine_type = OTHER\<rparr>"

definition refund :: Dish where
  "refund = \<lparr>dish_name = ''Refund'',
              ingredients = [(tomato 0)\<lparr>required_quantity := - 2147483648\<rparr>], prep_time = 0,
              dish_price = 0, cuisine_type = OTHER\<rparr>"

definition refund_dishes :: dish_heap where
  "refund_dishes = [1 \<mapsto> refund]"

definition example_dishes :: dish_heap where
  "example_dishes = [1 \<mapsto> sandwich, 2 \<mapsto> lettuce_sandwich, 3 \<mapsto> double_salad]"

definition grill :: "Ingredient list \<Rightarrow> KitchenStation" where
  "grill stock = \<lparr>station_name = ''Grill'', dishes = [Addr 1], ingredients_stock = stock\<rparr>"

definition deli :: "Ingredient list \<Rightarrow> KitchenStation" where
  "deli stock = \<lparr>station_name = ''Deli'', dishes = [Addr 1, Addr 2], ingredients_stock = stock\<rparr>"

definition salad_bar :: "Ingredient list \<Rightarrow> KitchenStation" where
  "salad_bar stock = \<lparr>station_name = ''Salad Bar'', dishes = [Addr 3], ingredients_stock = stock\<rparr>"

text \<open>
  A kitchen as in main.cpp after the dessert station has been moved to the front, and the
  same kitchen with a second station named Prep added at the back.
\<close>

definition prep :: KitchenStation where
  "prep = \<lparr>station_name = ''Prep'', dishes = [Addr 2], ingredients_stock = [lettuce 3, tomato 1]\<rparr>"

definition dessert :: KitchenStation where
  "dessert = \<lparr>station_name = ''Dessert'', dishes = [], ingredients_stock = []\<rparr>"

definition second_prep :: KitchenStation where
  "second_prep = \<lparr>station_name = ''Prep'', dishes = [Addr 3], ingredients_stock = []\<rparr>"

definition kitchen :: bistro where
  "kitchen = \<lparr>entries = [Addr 12, Addr 10, Addr 11],
               stations = [10 \<mapsto> grill [tomato 5], 11 \<mapsto> prep, 12 \<mapsto> dessert],
               dish_store = example_dishes\<rparr>"

definition crowded_kitchen :: bistro where
  "crowded_kitchen = \<lparr>entries = [Addr 12, Addr 10, Addr 11, Addr 13],
               stations = [10 \<mapsto> grill [tomato 5], 11 \<mapsto> prep, 12 \<mapsto> dessert, 13 \<mapsto> second_prep],
               dish_store = example_dishes\<rparr>"

definition grill_and_prep :: KitchenStation where
  "grill_and_prep = \<lparr>station_name = ''Grill'', dishes = [Addr 1, Addr 2],
                      ingredients_stock = [tomato 6, lettuce 3]\<rparr>"

definition kitchen_merged :: bistro where
  "kitchen_merged = \<lparr>entries = [Addr 12, Addr 10],
               stations = [10 \<mapsto> grill_and_prep, 12 \<mapsto> dessert],
               dish_store = [1 \<mapsto> sandwich, 3 \<mapsto> double_salad]\<rparr>"

definition crowded_kitchen_merged :: bistro where
  "crowded_kitchen_merged = \<lparr>entries = [Addr 12, Addr 10, Addr 13],
               stations = [10 \<mapsto> grill_and_prep, 12 \<mapsto> dessert, 13 \<mapsto> second_prep],
               dish_store = [1 \<mapsto> sandwich, 3 \<mapsto> double_salad]\<rparr>"

section \<open>Properties of a station\<close>

lemmas example_defs =
  tomato_def lettuce_def sandwich_def refund_def refund_dishes_def lettuce_sandwich_def double_salad_def example_dishes_def
  grill_def deli_def salad_bar_def prep_def dessert_def second_prep_def kitchen_def
  crowded_kitchen_def grill_and_prep_def kitchen_merged_def crowded_kitchen_merged_def

subsection \<open>Names and signs of the stock entries\<close>

lemma names_replenish_stock:
  "map name (replenish_stock stock i) =
     (if name i \<in> name ` set stock then map name stock else map name stock @ [name i])"
  by (induction stock) auto

lemma names_consume: "map name (consume stock i) = map name stock"
  by (induction stock) (auto simp: Let_def)

lemma names_consume_all: "map name (consume_all stock is) = map name stock"
  by (induction "is" arbitrary: stock) (auto simp: names_consume)

lemma names_prepare_loop:
  "prepare_loop h ps dname stock = Inr stock' \<Longrightarrow> map name stock' = map name stock"
  by (induction ps arbitrary: stock) (auto simp: names_consume_all split: sum.splits if_splits)

lemma distinct_remove_depleted:
  "distinct (map name stock) \<Longrightarrow> distinct (map name (remove_depleted stock))"
  by (simp add: remove_depleted_def distinct_map_filter)

lemma nonneg_consume:
  "\<forall>e \<in> set stock. 0 \<le> sint (quantity e) \<Longrightarrow> \<forall>e \<in> set (consume stock i). 0 \<le> sint (quantity e)"
  by (induction stock) (auto simp: Let_def)

lemma nonneg_consume_all:
  "\<forall>e \<in> set stock. 0 \<le> sint (quantity e) \<Longrightarrow> \<forall>e \<in> set (consume_all stock is). 0 \<le> sint (quantity e)"
  by (induction "is" arbitrary: stock) (auto dest: nonneg_consume)

lemma nonneg_prepare_loop:
  "prepare_loop h ps dname stock = Inr stock' \<Longrightarrow> \<forall>e \<in> set stock. 0 \<le> sint (quantity e)
   \<Longrightarrow> \<forall>e \<in> set stock'. 0 \<le> sint (quantity e)"
proof (induction ps arbitrary: stock)
  case Nil
  then show ?case by simp
next
  case (Cons p ps)
  show ?case
  proof (cases "deref h p")
    case (Inl e)
    with Cons.prems show ?thesis by simp
  next
    case (Inr d)
    show ?thesis
    proof (cases "dish_name d = dname")
      case True
      with Inr Cons.prems(1)
      have "prepare_loop h ps dname (consume_all stock (ingredients d)) = Inr stock'" by simp
      moreover have "\<forall>e \<in> set (consume_all stock (ingredients d)). 0 \<le> sint (quantity e)"
        using Cons.prems(2) by (rule nonneg_consume_all)
      ultimately show ?thesis by (rule Cons.IH)
    next
      case False
      with Inr Cons.prems(1) have "prepare_loop h ps dname stock = Inr stock'" by simp
      then show ?thesis using Cons.prems(2) by (rule Cons.IH)
    qed
  qed
qed

subsection \<open>The station functions return on a live roster\<close>

lemma can_complete_loop_total:
  "\<forall>p \<in> set ps. \<exists>d. deref h p = Inr d \<Longrightarrow> \<exists>r. can_complete_loop h stock ps dname = Inr r"
  by (induction ps) auto

lemma prepare_loop_total:
  "\<forall>p \<in> set ps. \<exists>d. deref h p = Inr d \<Longrightarrow> \<exists>r. prepare_loop h ps dname stock = Inr r"
  by (induction ps arbitrary: stock) auto

lemma prepareDish_total:
  "roster_live h s \<Longrightarrow> \<exists>ok s'. prepareDish h s dname = Inr (ok, s')"
  using can_complete_loop_total[of "dishes s" h "ingredients_stock s" dname]
        prepare_loop_total[of "dishes s" h dname "ingredients_stock s"]
  by (auto simp: prepareDish_def canCompleteOrder_def roster_live_def)

lemma prepareDish_dishes: "prepareDish h s dname = Inr (ok, s') \<Longrightarrow> dishes s' = dishes s"
  by (auto simp: prepareDish_def split: sum.splits if_splits)

text \<open>What a call of \<^verbatim>\<open>prepareDish\<close> that returns has done to the station.\<close>

lemma prepareDish_cases:
  assumes "prepareDish h s dname = Inr (ok, s')"
  obtains (refused) "ok = False" "s' = s" "canCompleteOrder h s dname = Inr False"
    | (prepared) stock where "ok = True" "canCompleteOrder h s dname = Inr True"
        "prepare_loop h (dishes s) dname (ingredients_stock s) = Inr stock"
        "s' = s\<lparr>ingredients_stock := remove_depleted stock\<rparr>"
  using assms by (auto simp: prepareDish_def split: sum.splits if_splits)

lemma prepareDish_nonneg:
  assumes "prepareDish h s dname = Inr (ok, s')"
      and "\<forall>e \<in> set (ingredients_stock s). 0 \<le> sint (quantity e)"
  shows "\<forall>e \<in> set (ingredients_stock s'). 0 \<le> sint (quantity e)"
  using assms(1)
proof (cases rule: prepareDish_cases)
  case refused
  with assms(2) show ?thesis by simp
next
  case (prepared stock)
  from prepared(3) assms(2) have "\<forall>e \<in> set stock. 0 \<le> sint (quantity e)"
    by (rule nonneg_prepare_loop)
  with prepared(4) show ?thesis by (simp add: remove_depleted_def)
qed

lemma prepareDish_distinct:
  assumes "prepareDish h s dname = Inr (ok, s')" and "distinct (map name (ingredients_stock s))"
  shows "distinct (map name (ingredients_stock s'))"
  using assms(1)
proof (cases rule: prepareDish_cases)
  case refused
  with assms(2) show ?thesis by simp
next
  case (prepared stock)
  from prepared(3) have "map name stock = map name (ingredients_stock s)"
    by (rule names_prepare_loop)
  with assms(2) have "distinct (map name stock)" by simp
  then have "distinct (map name (remove_depleted stock))" by (rule distinct_remove_depleted)
  with prepared(4) show ?thesis by simp
qed

subsection \<open>Refusal has no effect\<close>

text \<open>
  C3. If \<^verbatim>\<open>canCompleteOrder(d)\<close> is false, \<^verbatim>\<open>prepareDish(d)\<close> returns false and
  the station it returns is the station it was given: name, roster and stock are unchanged.
\<close>

theorem prepareDish_refuses:
  "canCompleteOrder h s dname = Inr False \<Longrightarrow> prepareDish h s dname = Inr (False, s)"
  by (simp add: prepareDish_def)

theorem prepareDish_refuses_witness:
  "canCompleteOrder example_dishes (grill [tomato 1]) ''Sandwich'' = Inr False
   \<and> prepareDish example_dishes (grill [tomato 1]) ''Sandwich'' = Inr (False, grill [tomato 1])"
proof -
  have h: "canCompleteOrder example_dishes (grill [tomato 1]) ''Sandwich'' = Inr False"
    by (simp add: canCompleteOrder_def example_dishes_def grill_def sandwich_def tomato_def)
  from h prepareDish_refuses[OF h] show ?thesis by simp
qed

subsection \<open>Quantities stay non-negative\<close>

lemma prepare_many_keeps_nonneg:
  "prepare_many h s ds = Inr s' \<Longrightarrow> \<forall>e \<in> set (ingredients_stock s). 0 \<le> sint (quantity e)
   \<Longrightarrow> \<forall>e \<in> set (ingredients_stock s'). 0 \<le> sint (quantity e)"
proof (induction ds arbitrary: s)
  case Nil
  then show ?case by simp
next
  case (Cons d ds)
  from Cons.prems(1) obtain ok s1 where step: "prepareDish h s d = Inr (ok, s1)"
    and rest: "prepare_many h s1 ds = Inr s'"
    by (auto split: sum.splits prod.splits)
  from step Cons.prems(2) have "\<forall>e \<in> set (ingredients_stock s1). 0 \<le> sint (quantity e)"
    by (rule prepareDish_nonneg)
  with rest show ?case by (rule Cons.IH)
qed

lemma prepare_many_total: "roster_live h s \<Longrightarrow> \<exists>s'. prepare_many h s ds = Inr s'"
proof (induction ds arbitrary: s)
  case Nil
  then show ?case by simp
next
  case (Cons d ds)
  from prepareDish_total[OF Cons.prems] obtain ok s1
    where step: "prepareDish h s d = Inr (ok, s1)" by blast
  from step have "dishes s1 = dishes s" by (rule prepareDish_dishes)
  with Cons.prems have "roster_live h s1" by (simp add: roster_live_def)
  from Cons.IH[OF this] step show ?case by simp
qed

text \<open>
  C7. On a station whose stock entries all have non-negative quantities, after every
  sequence of \<^verbatim>\<open>prepareDish\<close> calls every stock entry that remains has a
  non-negative quantity; and when the roster is live, every such sequence of calls
  returns.
\<close>

theorem prepare_many_nonneg:
  assumes "\<forall>e \<in> set (ingredients_stock s). 0 \<le> sint (quantity e)"
  shows "(\<forall>s'. prepare_many h s ds = Inr s' \<longrightarrow>
            (\<forall>e \<in> set (ingredients_stock s'). 0 \<le> sint (quantity e)))
       \<and> (roster_live h s \<longrightarrow> (\<exists>s'. prepare_many h s ds = Inr s'))"
  using assms prepare_many_keeps_nonneg prepare_many_total by blast

theorem prepare_many_nonneg_witness:
  "list_all (\<lambda>e. 0 \<le> sint (quantity e)) (ingredients_stock (grill [tomato 5, lettuce 0]))
   \<and> roster_live example_dishes (grill [tomato 5, lettuce 0])
   \<and> prepare_many example_dishes (grill [tomato 5, lettuce 0])
        [''Sandwich'', ''Soup'', ''Sandwich'', ''Sandwich''] = Inr (grill [tomato 1])
   \<and> list_all (\<lambda>e. 0 \<le> sint (quantity e)) (ingredients_stock (grill [tomato 1]))"
proof -
  have nonneg: "\<forall>e \<in> set (ingredients_stock (grill [tomato 5, lettuce 0])). 0 \<le> sint (quantity e)"
    by (simp add: example_defs)
  have live: "roster_live example_dishes (grill [tomato 5, lettuce 0])"
    by (simp add: roster_live_def example_defs)
  have run: "prepare_many example_dishes (grill [tomato 5, lettuce 0])
        [''Sandwich'', ''Soup'', ''Sandwich'', ''Sandwich''] = Inr (grill [tomato 1])"
    by (simp add: prepareDish_def canCompleteOrder_def remove_depleted_def example_defs)
  from prepare_many_nonneg[OF nonneg, of example_dishes
      "[''Sandwich'', ''Soup'', ''Sandwich'', ''Sandwich'']"] run
  have "\<forall>e \<in> set (ingredients_stock (grill [tomato 1])). 0 \<le> sint (quantity e)" by blast
  with nonneg live run show ?thesis unfolding list_all_iff by blast
qed

subsection \<open>Names of the stock stay unique\<close>

text \<open>
  C8. If no two entries of a station's stock have the same name, the same holds after
  \<^verbatim>\<open>replenishStationIngredients\<close> and after every \<^verbatim>\<open>prepareDish\<close> call that
  returns; on a live roster \<^verbatim>\<open>prepareDish\<close> does return.
\<close>

theorem stock_names_stay_distinct:
  assumes "distinct (map name (ingredients_stock s))"
  shows "distinct (map name (ingredients_stock (replenishStationIngredients s i)))
       \<and> (\<forall>ok s'. prepareDish h s dname = Inr (ok, s') \<longrightarrow> distinct (map name (ingredients_stock s')))
       \<and> (roster_live h s \<longrightarrow> (\<exists>ok s'. prepareDish h s dname = Inr (ok, s')))"
proof (intro conjI allI impI)
  show "distinct (map name (ingredients_stock (replenishStationIngredients s i)))"
    using assms by (simp add: replenishStationIngredients_def names_replenish_stock)
next
  fix ok s'
  assume "prepareDish h s dname = Inr (ok, s')"
  then show "distinct (map name (ingredients_stock s'))"
    using assms by (rule prepareDish_distinct)
next
  assume "roster_live h s"
  then show "\<exists>ok s'. prepareDish h s dname = Inr (ok, s')" by (rule prepareDish_total)
qed

theorem stock_names_stay_distinct_witness:
  "distinct (map name (ingredients_stock (grill [tomato 2, lettuce 1])))
   \<and> distinct (map name (ingredients_stock
         (replenishStationIngredients (grill [tomato 2, lettuce 1]) (tomato 3))))
   \<and> prepareDish example_dishes (grill [tomato 2, lettuce 1]) ''Sandwich''
       = Inr (True, grill [lettuce 1])
   \<and> distinct (map name (ingredients_stock (grill [lettuce 1])))"
proof -
  have h: "distinct (map name (ingredients_stock (grill [tomato 2, lettuce 1])))"
    by (simp add: grill_def tomato_def lettuce_def)
  have p: "prepareDish example_dishes (grill [tomato 2, lettuce 1]) ''Sandwich''
             = Inr (True, grill [lettuce 1])"
    by (simp add: prepareDish_def canCompleteOrder_def remove_depleted_def example_dishes_def
        grill_def sandwich_def tomato_def lettuce_def)
  note inst = stock_names_stay_distinct[OF h, of "tomato 3" example_dishes "''Sandwich''"]
  from inst p have "distinct (map name (ingredients_stock (grill [lettuce 1])))" by blast
  with inst h p show ?thesis by blast
qed

subsection \<open>Replenishing twice\<close>

lemma stock_entry_replenish:
  "stock_entry (replenish_stock stock i) n =
     (if n = name i
      then (case stock_entry stock n of
              None \<Rightarrow> Some i
            | Some e \<Rightarrow> Some (e\<lparr>quantity := quantity e + quantity i\<rparr>))
      else stock_entry stock n)"
  by (induction stock) auto

lemma replenish_stock_twice:
  "name i2 = name i1 \<Longrightarrow>
   replenish_stock (replenish_stock stock i1) i2
     = replenish_stock stock (i1\<lparr>quantity := quantity i1 + quantity i2\<rparr>)"
  by (induction stock) auto

text \<open>
  C6. Replenishing a station with two ingredients of the name \<open>n\<close>, of quantities
  \<open>q1\<close> and then \<open>q2\<close>, and replenishing it once with an ingredient of that name
  and quantity \<open>q1 + q2\<close>, both leave the stock with an entry named \<open>n\<close>, and the
  two entries have the same quantity: what the stock held under the name before, plus
  \<open>q1 + q2\<close>. When the stock already has an entry of the name, the entry only has the
  incoming quantities added: its required quantity and price stay its own. When it has
  none, the first incoming ingredient becomes the entry.
\<close>

theorem replenish_twice_adds_up:
  assumes "name i1 = n" and "name i2 = n" and "name i = n"
      and "quantity i = quantity i1 + quantity i2"
  shows "(\<exists>e1 e2.
            stock_entry (ingredients_stock
              (replenishStationIngredients (replenishStationIngredients s i1) i2)) n = Some e2
          \<and> stock_entry (ingredients_stock (replenishStationIngredients s i)) n = Some e1
          \<and> quantity e2 = quantity e1
          \<and> quantity e1 = (case stock_entry (ingredients_stock s) n of
                               None \<Rightarrow> 0 | Some e \<Rightarrow> quantity e)
                            + (quantity i1 + quantity i2))
       \<and> (\<forall>e. stock_entry (ingredients_stock s) n = Some e \<longrightarrow>
             stock_entry (ingredients_stock (replenishStationIngredients s i)) n
               = Some (e\<lparr>quantity := quantity e + quantity i\<rparr>)
           \<and> stock_entry (ingredients_stock
                (replenishStationIngredients (replenishStationIngredients s i1) i2)) n
               = Some (e\<lparr>quantity := quantity e + quantity i1 + quantity i2\<rparr>))
       \<and> (stock_entry (ingredients_stock s) n = None \<longrightarrow>
             stock_entry (ingredients_stock (replenishStationIngredients s i)) n = Some i
           \<and> stock_entry (ingredients_stock
                (replenishStationIngredients (replenishStationIngredients s i1) i2)) n
               = Some (i1\<lparr>quantity := quantity i1 + quantity i2\<rparr>))"
  using assms
  by (cases "stock_entry (ingredients_stock s) n")
     (simp_all add: replenishStationIngredients_def stock_entry_replenish add.assoc)

theorem replenish_twice_adds_up_witness:
  "name (tomato 1) = ''Tomato'' \<and> name (tomato 4) = ''Tomato''
   \<and> name ((tomato 5)\<lparr>required_quantity := 0, price := 7\<rparr>) = ''Tomato''
   \<and> quantity ((tomato 5)\<lparr>required_quantity := 0, price := 7\<rparr>)
       = quantity (tomato 1) + quantity (tomato 4)
   \<and> stock_entry (ingredients_stock (grill [lettuce 3])) ''Tomato'' = None
   \<and> stock_entry (ingredients_stock (replenishStationIngredients
         (replenishStationIngredients (grill [lettuce 3]) (tomato 1)) (tomato 4))) ''Tomato''
       = Some (tomato 5)
   \<and> stock_entry (ingredients_stock (replenishStationIngredients (grill [lettuce 3])
         ((tomato 5)\<lparr>required_quantity := 0, price := 7\<rparr>))) ''Tomato''
       = Some ((tomato 5)\<lparr>required_quantity := 0, price := 7\<rparr>)
   \<and> stock_entry (ingredients_stock (grill [lettuce 3, tomato 1])) ''Tomato'' = Some (tomato 1)
   \<and> stock_entry (ingredients_stock (replenishStationIngredients
         (replenishStationIngredients (grill [lettuce 3, tomato 1]) (tomato 1)) (tomato 4)))
         ''Tomato''
       = Some (tomato 6)
   \<and> stock_entry (ingredients_stock (replenishStationIngredients (grill [lettuce 3, tomato 1])
         ((tomato 5)\<lparr>required_quantity := 0, price := 7\<rparr>))) ''Tomato'' = Some (tomato 6)"
proof -
  have h1: "name (tomato 1) = ''Tomato''" and h2: "name (tomato 4) = ''Tomato''"
    and h3: "name ((tomato 5)\<lparr>required_quantity := 0, price := 7\<rparr>) = ''Tomato''"
    and h4: "quantity ((tomato 5)\<lparr>required_quantity := 0, price := 7\<rparr>)
               = quantity (tomato 1) + quantity (tomato 4)"
    by (simp_all add: tomato_def)
  have none: "stock_entry (ingredients_stock (grill [lettuce 3])) ''Tomato'' = None"
    by (simp add: example_defs)
  have some: "stock_entry (ingredients_stock (grill [lettuce 3, tomato 1])) ''Tomato''
                = Some (tomato 1)"
    by (simp add: example_defs)
  note absent = replenish_twice_adds_up[OF h1 h2 h3 h4, of "grill [lettuce 3]"]
  note present = replenish_twice_adds_up[OF h1 h2 h3 h4, of "grill [lettuce 3, tomato 1]"]
  from absent none
  have a1: "stock_entry (ingredients_stock (replenishStationIngredients
         (replenishStationIngredients (grill [lettuce 3]) (tomato 1)) (tomato 4))) ''Tomato''
       = Some ((tomato 1)\<lparr>quantity := quantity (tomato 1) + quantity (tomato 4)\<rparr>)"
    and a2: "stock_entry (ingredients_stock (replenishStationIngredients (grill [lettuce 3])
         ((tomato 5)\<lparr>required_quantity := 0, price := 7\<rparr>))) ''Tomato''
       = Some ((tomato 5)\<lparr>required_quantity := 0, price := 7\<rparr>)"
    by blast+
  from present some
  have p1: "stock_entry (ingredients_stock (replenishStationIngredients
         (replenishStationIngredients (grill [lettuce 3, tomato 1]) (tomato 1)) (tomato 4)))
         ''Tomato''
       = Some ((tomato 1)\<lparr>quantity := quantity (tomato 1) + quantity (tomato 1)
                                         + quantity (tomato 4)\<rparr>)"
    and p2: "stock_entry (ingredients_stock (replenishStationIngredients
         (grill [lettuce 3, tomato 1]) ((tomato 5)\<lparr>required_quantity := 0, price := 7\<rparr>)))
         ''Tomato''
       = Some ((tomato 1)\<lparr>quantity := quantity (tomato 1)
            + quantity ((tomato 5)\<lparr>required_quantity := 0, price := 7\<rparr>)\<rparr>)"
    by blast+
  have e5: "(tomato 1)\<lparr>quantity := quantity (tomato 1) + quantity (tomato 4)\<rparr> = tomato 5"
    and e6: "(tomato 1)\<lparr>quantity := quantity (tomato 1) + quantity (tomato 1)
                                         + quantity (tomato 4)\<rparr> = tomato 6"
    and e6': "(tomato 1)\<lparr>quantity := quantity (tomato 1)
            + quantity ((tomato 5)\<lparr>required_quantity := 0, price := 7\<rparr>)\<rparr> = tomato 6"
    by (simp_all add: tomato_def)
  from h1 h2 h3 h4 none some a1 a2 p1 p2 show ?thesis
    unfolding e5 e6 e6' by (intro conjI)
qed

subsection \<open>Feasibility\<close>

lemma found_in_stock_iff:
  "found_in_stock stock i \<longleftrightarrow> (\<exists>e \<in> set stock. name e = name i \<and> sint (quantity e) \<ge> sint (required_quantity i))"
  by (induction stock) auto

lemma all_found_iff: "all_found stock is \<longleftrightarrow> (\<forall>i \<in> set is. found_in_stock stock i)"
  by (induction "is") auto

lemma can_complete_loop_first:
  "can_complete_loop h stock ps dname = Inr r \<Longrightarrow>
   r = (case find (\<lambda>d. dish_name d = dname) (live_dishes h ps) of
          None \<Rightarrow> False
        | Some d \<Rightarrow> all_found stock (ingredients d))"
  by (induction ps) (auto split: sum.splits if_splits)

lemma find_filter_Nil: "filter P xs = [] \<Longrightarrow> find P xs = None"
  by (induction xs) (auto split: if_splits)

lemma find_filter_Cons: "filter P xs = y # ys \<Longrightarrow> find P xs = Some y"
  by (induction xs) (auto split: if_splits)

lemma can_complete_loop_live:
  "\<forall>p \<in> set ps. \<exists>d. deref h p = Inr d \<Longrightarrow>
   can_complete_loop h stock ps dname =
     Inr (case find (\<lambda>d. dish_name d = dname) (live_dishes h ps) of
            None \<Rightarrow> False
          | Some d \<Rightarrow> all_found stock (ingredients d))"
  using can_complete_loop_total[of ps h stock dname] can_complete_loop_first[of h stock ps dname]
  by auto

lemma canCompleteOrder_live:
  assumes "roster_live h s"
  shows "canCompleteOrder h s dname = Inr (first_dish_can_be_completed h s dname)"
proof -
  from assms have "\<forall>p \<in> set (dishes s). \<exists>d. deref h p = Inr d" by (simp add: roster_live_def)
  from can_complete_loop_live[OF this] show ?thesis
    by (simp add: canCompleteOrder_def first_dish_can_be_completed_def roster_dishes_def
        all_found_iff found_in_stock_iff in_stock_def split: option.splits)
qed

lemma first_is_some:
  assumes "length (filter (\<lambda>d. dish_name d = dname) (roster_dishes h s)) \<le> 1"
  shows "first_dish_can_be_completed h s dname = some_dish_can_be_completed h s dname"
proof (cases "filter (\<lambda>d. dish_name d = dname) (roster_dishes h s)")
  case Nil
  then have "find (\<lambda>d. dish_name d = dname) (roster_dishes h s) = None" by (rule find_filter_Nil)
  moreover from Nil have "\<forall>d \<in> set (roster_dishes h s). dish_name d \<noteq> dname"
    by (simp add: filter_empty_conv)
  ultimately show ?thesis
    by (simp add: first_dish_can_be_completed_def some_dish_can_be_completed_def)
next
  case (Cons d ds)
  with assms have ds: "ds = []" by simp
  from Cons have f: "find (\<lambda>d. dish_name d = dname) (roster_dishes h s) = Some d"
    by (rule find_filter_Cons)
  have "set (filter (\<lambda>d. dish_name d = dname) (roster_dishes h s)) = {d}"
    using Cons ds by simp
  then have only: "\<And>x. x \<in> set (roster_dishes h s) \<and> dish_name x = dname \<longleftrightarrow> x = d"
    by auto
  from only[of d] have d: "d \<in> set (roster_dishes h s)" "dish_name d = dname" by simp_all
  have "some_dish_can_be_completed h s dname \<longleftrightarrow> (\<forall>i \<in> set (ingredients d). in_stock s i)"
  proof
    assume "some_dish_can_be_completed h s dname"
    then obtain x where "x \<in> set (roster_dishes h s)" "dish_name x = dname"
      and x: "\<forall>i \<in> set (ingredients x). in_stock s i"
      unfolding some_dish_can_be_completed_def by blast
    with only[of x] have "x = d" by simp
    with x show "\<forall>i \<in> set (ingredients d). in_stock s i" by simp
  next
    assume "\<forall>i \<in> set (ingredients d). in_stock s i"
    with d show "some_dish_can_be_completed h s dname"
      unfolding some_dish_can_be_completed_def by blast
  qed
  then show ?thesis by (simp add: first_dish_can_be_completed_def f)
qed

text \<open>
  C2, as amended. On a station whose roster is live, \<^verbatim>\<open>canCompleteOrder(d)\<close>
  returns, and it returns true if and only if the first dish named \<open>d\<close> in the roster
  exists and every ingredient it requires has a stock entry of the same name with
  \<open>quantity \<ge> requiredQuantity\<close>. It returns false when no dish of the roster is
  named \<open>d\<close>, whatever the stock. When at most one dish of the roster is named \<open>d\<close>,
  the result is the condition of the specification.
\<close>

theorem canCompleteOrder_first_dish:
  assumes "roster_live h s"
  shows "canCompleteOrder h s dname = Inr (first_dish_can_be_completed h s dname)
       \<and> ((\<forall>d \<in> set (roster_dishes h s). dish_name d \<noteq> dname) \<longrightarrow> canCompleteOrder h s dname = Inr False)
       \<and> (length (filter (\<lambda>d. dish_name d = dname) (roster_dishes h s)) \<le> 1 \<longrightarrow>
            canCompleteOrder h s dname = Inr (some_dish_can_be_completed h s dname))"
proof (intro conjI impI)
  show first: "canCompleteOrder h s dname = Inr (first_dish_can_be_completed h s dname)"
    using assms by (rule canCompleteOrder_live)
  {
    assume "\<forall>d \<in> set (roster_dishes h s). dish_name d \<noteq> dname"
    then have "find (\<lambda>d. dish_name d = dname) (roster_dishes h s) = None"
      by (simp add: find_None_iff)
    with first show "canCompleteOrder h s dname = Inr False"
      by (simp add: first_dish_can_be_completed_def)
  }
  {
    assume "length (filter (\<lambda>d. dish_name d = dname) (roster_dishes h s)) \<le> 1"
    then have "first_dish_can_be_completed h s dname = some_dish_can_be_completed h s dname"
      by (rule first_is_some)
    with first show "canCompleteOrder h s dname = Inr (some_dish_can_be_completed h s dname)"
      by simp
  }
qed

theorem canCompleteOrder_first_dish_witness:
  "roster_live example_dishes (deli [tomato 2])
   \<and> canCompleteOrder example_dishes (deli [tomato 2]) ''Sandwich'' = Inr True
   \<and> canCompleteOrder example_dishes (deli [tomato 2]) ''Salad'' = Inr False
   \<and> canCompleteOrder example_dishes (grill [tomato 1]) ''Sandwich'' = Inr False"
proof -
  have live: "roster_live example_dishes (deli [tomato 2])"
    and live': "roster_live example_dishes (grill [tomato 1])"
    by (simp_all add: roster_live_def example_defs)
  have "first_dish_can_be_completed example_dishes (deli [tomato 2]) ''Sandwich''"
    by (simp add: first_dish_can_be_completed_def roster_dishes_def in_stock_def example_defs)
  with canCompleteOrder_first_dish[OF live, of "''Sandwich''"]
  have 1: "canCompleteOrder example_dishes (deli [tomato 2]) ''Sandwich'' = Inr True" by simp
  have "\<forall>d \<in> set (roster_dishes example_dishes (deli [tomato 2])). dish_name d \<noteq> ''Salad''"
    by (simp add: roster_dishes_def example_defs)
  with canCompleteOrder_first_dish[OF live, of "''Salad''"]
  have 2: "canCompleteOrder example_dishes (deli [tomato 2]) ''Salad'' = Inr False" by blast
  have one: "length (filter (\<lambda>d. dish_name d = ''Sandwich'')
          (roster_dishes example_dishes (grill [tomato 1]))) \<le> 1"
    and none: "some_dish_can_be_completed example_dishes (grill [tomato 1]) ''Sandwich'' = False"
    by (simp_all add: some_dish_can_be_completed_def roster_dishes_def in_stock_def example_defs)
  from canCompleteOrder_first_dish[OF live', of "''Sandwich''"] one
  have "canCompleteOrder example_dishes (grill [tomato 1]) ''Sandwich''
          = Inr (some_dish_can_be_completed example_dishes (grill [tomato 1]) ''Sandwich'')"
    by blast
  then have 3: "canCompleteOrder example_dishes (grill [tomato 1]) ''Sandwich'' = Inr False"
    unfolding none .
  from live 1 2 3 show ?thesis by simp
qed

text \<open>
  C2 as stated fails when two dishes of the roster have the same name. The first dish
  named Sandwich needs tomatoes, which the stock lacks; the second dish named Sandwich
  needs one lettuce, which the stock has. The loop returns at the first dish.
\<close>

theorem canCompleteOrder_some_dish_counterexample:
  "canCompleteOrder example_dishes (deli [lettuce 1]) ''Sandwich'' = Inr False
   \<and> some_dish_can_be_completed example_dishes (deli [lettuce 1]) ''Sandwich''"
  by (simp add: canCompleteOrder_def some_dish_can_be_completed_def roster_dishes_def
      in_stock_def example_defs)

subsection \<open>Preparation\<close>

lemma stock_entry_None: "n \<notin> name ` set stock \<Longrightarrow> stock_entry stock n = None"
  by (induction stock) auto

lemma stock_entry_consume:
  "stock_entry (consume stock i) n =
     (if n = name i
      then map_option (\<lambda>e. e\<lparr>quantity := (if sint (quantity e - required_quantity i) \<le> 0 then 0
                                             else quantity e - required_quantity i)\<rparr>)
             (stock_entry stock n)
      else stock_entry stock n)"
  by (induction stock) (auto simp: Let_def)

lemma stock_entry_consume_all_other:
  "n \<notin> name ` set is \<Longrightarrow> stock_entry (consume_all stock is) n = stock_entry stock n"
  by (induction "is" arbitrary: stock) (auto simp: stock_entry_consume)

lemma stock_entry_consume_all:
  "distinct (map name is) \<Longrightarrow> i \<in> set is \<Longrightarrow>
   stock_entry (consume_all stock is) (name i) =
     map_option (\<lambda>e. e\<lparr>quantity := (if sint (quantity e - required_quantity i) \<le> 0 then 0
                                           else quantity e - required_quantity i)\<rparr>)
       (stock_entry stock (name i))"
proof (induction "is" arbitrary: stock)
  case Nil
  then show ?case by simp
next
  case (Cons j js)
  show ?case
  proof (cases "i = j")
    case True
    from Cons.prems(1) have "name j \<notin> name ` set js" by simp
    then have "stock_entry (consume_all (consume stock j) js) (name j) = stock_entry (consume stock j) (name j)"
      by (rule stock_entry_consume_all_other)
    then show ?thesis unfolding True by (simp add: stock_entry_consume)
  next
    case False
    with Cons.prems have i: "i \<in> set js" and d: "distinct (map name js)" by simp_all
    from i have "name i \<in> name ` set js" by (rule imageI)
    moreover from Cons.prems(1) have "name j \<notin> name ` set js" by simp
    ultimately have "name i \<noteq> name j" by metis
    with Cons.IH[OF d i, of "consume stock j"] show ?thesis
      by (simp add: stock_entry_consume)
  qed
qed

lemma stock_entry_filter:
  "distinct (map name stock) \<Longrightarrow>
   stock_entry (filter P stock) n =
     (case stock_entry stock n of None \<Rightarrow> None | Some e \<Rightarrow> if P e then Some e else None)"
proof (induction stock)
  case Nil
  then show ?case by simp
next
  case (Cons e rest)
  show ?case
  proof (cases "name e = n")
    case True
    with Cons.prems have "n \<notin> name ` set (filter P rest)" by auto
    then have "stock_entry (filter P rest) n = None" by (rule stock_entry_None)
    with True show ?thesis by simp
  next
    case False
    with Cons show ?thesis by simp
  qed
qed

lemma found_entry:
  "distinct (map name stock) \<Longrightarrow> found_in_stock stock i \<Longrightarrow>
   \<exists>e. stock_entry stock (name i) = Some e \<and> sint (required_quantity i) \<le> sint (quantity e)"
proof (induction stock)
  case Nil
  then show ?case by simp
next
  case (Cons e rest)
  show ?case
  proof (cases "name e = name i")
    case True
    with Cons.prems(1) have absent: "name i \<notin> name ` set rest" by auto
    have "\<not> found_in_stock rest i"
    proof
      assume "found_in_stock rest i"
      then obtain x where "x \<in> set rest" "name x = name i"
        unfolding found_in_stock_iff by blast
      then have "name i \<in> name ` set rest" by (metis imageI)
      with absent show False by simp
    qed
    with Cons.prems(2) True show ?thesis by (simp split: if_splits)
  next
    case False
    with Cons show ?thesis by simp
  qed
qed

lemma prepare_loop_fold:
  "prepare_loop h ps dname stock = Inr stock' \<Longrightarrow>
   stock' = foldl consume_all stock
              (map ingredients (filter (\<lambda>d. dish_name d = dname) (live_dishes h ps)))"
  by (induction ps arbitrary: stock) (auto split: sum.splits if_splits)

lemma sint_sub_in_range:
  fixes q r :: int32
  assumes "sint r \<le> sint q" and "sint q - sint r < 2 ^ 31"
  shows "sint (q - r) = sint q - sint r"
proof -
  have "sint (q - r) = signed_take_bit 31 (sint q - sint r)"
    by (simp add: sint_word_ariths)
  also from assms have "\<dots> = sint q - sint r"
    by (intro signed_take_bit_int_eq_self) simp_all
  finally show ?thesis .
qed

lemma clamp_exact:
  fixes q r :: int32
  assumes "sint r \<le> sint q" and "sint q - sint r < 2 ^ 31"
  shows "(if sint (q - r) \<le> 0 then 0 else q - r) = q - r"
proof (cases "sint (q - r) \<le> 0")
  case True
  with sint_sub_in_range[OF assms] assms(1) have "sint (q - r) = 0" by simp
  then have "q - r = 0" by (simp only: signed_eq_0_iff)
  with True show ?thesis by simp
next
  case False
  then show ?thesis by simp
qed

lemma prepareDish_no_depleted:
  assumes "prepareDish h s dname = Inr (True, s')"
  shows "\<forall>e \<in> set (ingredients_stock s'). quantity e \<noteq> 0"
  using assms by (cases rule: prepareDish_cases) (simp_all add: remove_depleted_def)

lemma prepareDish_consumed:
  assumes prepared: "prepareDish h s dname = Inr (True, s')"
      and unique_stock: "distinct (map name (ingredients_stock s))"
      and one_dish: "filter (\<lambda>x. dish_name x = dname) (roster_dishes h s) = [d]"
      and unique_ingredients: "distinct (map name (ingredients d))"
      and i: "i \<in> set (ingredients d)"
      and in_range: "subtraction_in_range (ingredients_stock s) i"
  shows "consumed (ingredients_stock s) (ingredients_stock s') i"
proof -
  from prepared obtain stock
    where can: "canCompleteOrder h s dname = Inr True"
      and loop: "prepare_loop h (dishes s) dname (ingredients_stock s) = Inr stock"
      and s': "s' = s\<lparr>ingredients_stock := remove_depleted stock\<rparr>"
    by (cases rule: prepareDish_cases) auto
  from one_dish have first: "find (\<lambda>x. dish_name x = dname) (live_dishes h (dishes s)) = Some d"
    unfolding roster_dishes_def by (rule find_filter_Cons)
  from can can_complete_loop_first[of h "ingredients_stock s" "dishes s" dname True] first
  have found: "\<forall>i \<in> set (ingredients d). found_in_stock (ingredients_stock s) i"
    by (simp add: canCompleteOrder_def all_found_iff)
  from prepare_loop_fold[OF loop] one_dish
  have stock: "stock = consume_all (ingredients_stock s) (ingredients d)"
    by (simp add: roster_dishes_def)
  have names: "distinct (map name stock)"
    using unique_stock by (simp add: stock names_consume_all)
  from found i have "found_in_stock (ingredients_stock s) i" by simp
  with unique_stock obtain e
    where e: "stock_entry (ingredients_stock s) (name i) = Some e"
      and enough: "sint (required_quantity i) \<le> sint (quantity e)"
    using found_entry by blast
  from in_range e have range: "sint (quantity e) - sint (required_quantity i) < 2 ^ 31"
    by (simp add: subtraction_in_range_def)
  note exact = sint_sub_in_range[OF enough range] and clamp = clamp_exact[OF enough range]
  from stock_entry_consume_all[OF unique_ingredients i, of "ingredients_stock s"] e
  have "stock_entry stock (name i) = Some (e\<lparr>quantity := quantity e - required_quantity i\<rparr>)"
    by (simp add: stock clamp)
  with stock_entry_filter[OF names, of "\<lambda>x. quantity x \<noteq> 0" "name i"]
  have "stock_entry (remove_depleted stock) (name i) =
          (if quantity e - required_quantity i = 0 then None
           else Some (e\<lparr>quantity := quantity e - required_quantity i\<rparr>))"
    by (simp add: remove_depleted_def)
  with e s' exact show ?thesis by (simp add: consumed_def)
qed

text \<open>
  C1, as amended. When \<^verbatim>\<open>prepareDish(d)\<close> returns true, no entry of the stock has
  quantity 0. Moreover, let the stock of the station have had no two entries of the same
  name, let exactly one dish of its roster be named \<open>d\<close>, and let the ingredients of
  that dish have pairwise different names. Then for every ingredient the dish requires,
  if subtracting the required quantity from the quantity of the stock entry of that name
  does not overflow \<^verbatim>\<open>int\<close>, the entry has had its quantity reduced by exactly the
  required quantity, or is gone when that left exactly 0.
\<close>

theorem prepareDish_consumes:
  assumes prepared: "prepareDish h s dname = Inr (True, s')"
  shows "(\<forall>e \<in> set (ingredients_stock s'). quantity e \<noteq> 0)
       \<and> (distinct (map name (ingredients_stock s))
            \<and> filter (\<lambda>x. dish_name x = dname) (roster_dishes h s) = [d]
            \<and> distinct (map name (ingredients d))
          \<longrightarrow> (\<forall>i \<in> set (ingredients d).
                  subtraction_in_range (ingredients_stock s) i
                  \<longrightarrow> consumed (ingredients_stock s) (ingredients_stock s') i))"
  using prepareDish_no_depleted[OF prepared] prepareDish_consumed[OF prepared] by blast

theorem prepareDish_consumes_witness:
  "prepareDish example_dishes (grill [tomato 5, lettuce 1]) ''Sandwich''
       = Inr (True, grill [tomato 3, lettuce 1])
   \<and> list_all (\<lambda>e. quantity e \<noteq> 0) [tomato 3, lettuce 1]
   \<and> distinct (map name (ingredients_stock (grill [tomato 5, lettuce 1])))
   \<and> filter (\<lambda>x. dish_name x = ''Sandwich'')
        (roster_dishes example_dishes (grill [tomato 5, lettuce 1])) = [sandwich]
   \<and> distinct (map name (ingredients sandwich))
   \<and> tomato 0 \<in> set (ingredients sandwich)
   \<and> subtraction_in_range (ingredients_stock (grill [tomato 5, lettuce 1])) (tomato 0)
   \<and> consumed [tomato 5, lettuce 1] [tomato 3, lettuce 1] (tomato 0)"
proof -
  have h0: "prepareDish example_dishes (grill [tomato 5, lettuce 1]) ''Sandwich''
       = Inr (True, grill [tomato 3, lettuce 1])"
    by (simp add: prepareDish_def canCompleteOrder_def remove_depleted_def example_defs)
  have h1: "distinct (map name (ingredients_stock (grill [tomato 5, lettuce 1])))"
    by (simp add: example_defs)
  have h2: "filter (\<lambda>x. dish_name x = ''Sandwich'')
        (roster_dishes example_dishes (grill [tomato 5, lettuce 1])) = [sandwich]"
    by (simp add: roster_dishes_def example_defs)
  have h3: "distinct (map name (ingredients sandwich))"
    by (simp add: example_defs)
  have h4: "tomato 0 \<in> set (ingredients sandwich)"
    by (simp add: example_defs)
  have h5: "subtraction_in_range (ingredients_stock (grill [tomato 5, lettuce 1])) (tomato 0)"
    by (simp add: subtraction_in_range_def example_defs)
  note inst = prepareDish_consumes[OF h0, of sandwich]
  from inst have "\<forall>e \<in> set (ingredients_stock (grill [tomato 3, lettuce 1])). quantity e \<noteq> 0"
    by blast
  then have c1: "list_all (\<lambda>e. quantity e \<noteq> 0) [tomato 3, lettuce 1]"
    by (simp add: grill_def list_all_iff)
  from inst h1 h2 h3 h4 h5
  have "consumed (ingredients_stock (grill [tomato 5, lettuce 1]))
          (ingredients_stock (grill [tomato 3, lettuce 1])) (tomato 0)"
    by blast
  then have c2: "consumed [tomato 5, lettuce 1] [tomato 3, lettuce 1] (tomato 0)"
    by (simp add: grill_def)
  from h0 c1 h1 h2 h3 h4 h5 c2 show ?thesis by simp
qed

text \<open>
  C1 as stated fails for a dish whose list of ingredients names an ingredient twice:
  each requirement is checked against the stock on its own, both are subtracted from the
  one entry and the result is clamped. With three tomatoes in stock and a salad that
  requires two tomatoes twice, the preparation succeeds and the entry is erased, where
  a reduction by the required quantity would leave one tomato.
\<close>

theorem prepareDish_consumes_counterexample:
  "prepareDish example_dishes (salad_bar [tomato 3]) ''Salad'' = Inr (True, salad_bar [])
   \<and> tomato 0 \<in> set (ingredients double_salad)
   \<and> \<not> consumed (ingredients_stock (salad_bar [tomato 3])) (ingredients_stock (salad_bar []))
         (tomato 0)"
  by (simp add: prepareDish_def canCompleteOrder_def remove_depleted_def consumed_def
      example_defs)

text \<open>
  The loop of \<^verbatim>\<open>prepareDish\<close> over the roster does not stop at the first dish of
  the name: with two dishes named Sandwich in the roster, the ingredients of both are
  taken from the stock, although \<^verbatim>\<open>canCompleteOrder\<close> has checked the first only.
\<close>

lemma prepareDish_every_dish_of_the_name:
  "prepareDish example_dishes (deli [tomato 2, lettuce 5]) ''Sandwich''
     = Inr (True, deli [lettuce 4])"
  by (simp add: prepareDish_def canCompleteOrder_def remove_depleted_def example_defs)

text \<open>
  A required quantity can be negative. With five tomatoes in stock and a dish that
  requires the least \<^verbatim>\<open>int\<close> of them, the check passes, the subtraction wraps
  around to a negative number, the clamp sets the entry to 0 and the entry is erased:
  the quantity has not been reduced by the required quantity.
\<close>

lemma prepareDish_subtraction_overflows:
  "prepareDish refund_dishes (grill [tomato 5]) ''Refund'' = Inr (True, grill [])
   \<and> \<not> subtraction_in_range (ingredients_stock (grill [tomato 5]))
         ((tomato 0)\<lparr>required_quantity := - 2147483648\<rparr>)
   \<and> \<not> consumed (ingredients_stock (grill [tomato 5])) (ingredients_stock (grill []))
         ((tomato 0)\<lparr>required_quantity := - 2147483648\<rparr>)"
  by (simp add: prepareDish_def canCompleteOrder_def remove_depleted_def consumed_def
      subtraction_in_range_def example_defs)

section \<open>Properties of the manager\<close>

subsection \<open>The scan for a name\<close>

lemma first_named_prefix:
  "\<forall>x \<in> set xs. live_or_null sh x \<and> \<not> named_station sh n x \<Longrightarrow>
   first_named sh (xs @ ys) n i = first_named sh ys n (i + length xs)"
proof (induction xs arbitrary: i)
  case Nil
  then show ?case by simp
next
  case (Cons x xs)
  then show ?case
    by (cases x) (auto simp: live_or_null_def named_station_def split: option.splits)
qed

lemma first_named_hit:
  "named_station sh n p \<Longrightarrow> first_named sh (p # ys) n i = Inr (Some (i, p))"
  by (cases p) (auto simp: named_station_def split: option.splits)

lemma first_named_split:
  assumes "\<forall>x \<in> set xs. live_or_null sh x \<and> \<not> named_station sh n x" and "named_station sh n p"
  shows "first_named sh (xs @ p # ys) n i = Inr (Some (i + length xs, p))"
  using first_named_prefix[OF assms(1)] first_named_hit[OF assms(2)] by simp

lemma first_named_none:
  assumes "\<forall>x \<in> set xs. live_or_null sh x \<and> \<not> named_station sh n x"
  shows "first_named sh xs n i = Inr None"
  using first_named_prefix[OF assms, of "[]" i] by simp

lemma first_named_Some:
  "first_named sh ps n i = Inr (Some (k, p)) \<Longrightarrow>
   \<exists>xs ys. ps = xs @ p # ys \<and> k = i + length xs \<and> named_station sh n p
          \<and> (\<forall>x \<in> set xs. live_or_null sh x \<and> \<not> named_station sh n x)"
proof (induction ps arbitrary: i)
  case Nil
  then show ?case by simp
next
  case (Cons q qs)
  show ?case
  proof (cases "named_station sh n q")
    case True
    with Cons.prems have "k = i" "p = q" by (simp_all add: first_named_hit)
    with True have "q # qs = [] @ p # qs \<and> k = i + length ([]::ptr list) \<and> named_station sh n p
          \<and> (\<forall>x \<in> set ([]::ptr list). live_or_null sh x \<and> \<not> named_station sh n x)"
      by simp
    then show ?thesis by blast
  next
    case False
    from Cons.prems False have live: "live_or_null sh q"
      by (cases q) (auto simp: live_or_null_def split: option.splits)
    from Cons.prems False have "first_named sh qs n (Suc i) = Inr (Some (k, p))"
      by (cases q) (auto simp: named_station_def split: option.splits if_splits)
    from Cons.IH[OF this] obtain xs ys where
      "qs = xs @ p # ys" "k = Suc i + length xs" "named_station sh n p"
      "\<forall>x \<in> set xs. live_or_null sh x \<and> \<not> named_station sh n x" by blast
    with False live have "q # qs = (q # xs) @ p # ys \<and> k = i + length (q # xs) \<and> named_station sh n p
          \<and> (\<forall>x \<in> set (q # xs). live_or_null sh x \<and> \<not> named_station sh n x)"
      by simp
    then show ?thesis by blast
  qed
qed

lemma first_named_None:
  "first_named sh ps n i = Inr None \<Longrightarrow> \<forall>x \<in> set ps. live_or_null sh x \<and> \<not> named_station sh n x"
proof (induction ps arbitrary: i)
  case Nil
  then show ?case by simp
next
  case (Cons q qs)
  from Cons.prems have q: "live_or_null sh q \<and> \<not> named_station sh n q"
    and rest: "first_named sh qs n (Suc i) = Inr None"
    by (cases q; auto simp: live_or_null_def named_station_def split: option.splits if_splits)+
  from Cons.IH[OF rest] q show ?case by simp
qed

lemma first_named_total:
  "\<forall>x \<in> set ps. live_or_null sh x \<Longrightarrow> \<exists>r. first_named sh ps n i = Inr r"
proof (induction ps arbitrary: i)
  case Nil
  then show ?case by simp
next
  case (Cons q qs)
  then show ?case
    by (cases q) (auto simp: live_or_null_def split: option.splits)
qed

lemma first_named_exists:
  assumes "\<forall>x \<in> set ps. live_or_null sh x" and "\<exists>p \<in> set ps. named_station sh n p"
  shows "\<exists>k q. first_named sh ps n i = Inr (Some (k, q))"
proof -
  from first_named_total[OF assms(1)] obtain r where r: "first_named sh ps n i = Inr r" by blast
  show ?thesis
  proof (cases r)
    case None
    with r first_named_None[of sh ps n i] assms(2) show ?thesis by blast
  next
    case (Some kq)
    with r show ?thesis by (cases kq) simp
  qed
qed

lemma findStation_total: "valid_manager b \<Longrightarrow> \<exists>p. findStation b sname = Inr p"
proof -
  assume "valid_manager b"
  then have "\<forall>x \<in> set (entries b). live_or_null (stations b) x" by (simp add: valid_manager_def)
  from first_named_total[OF this] obtain r
    where "first_named (stations b) (entries b) sname 0 = Inr r" by blast
  then show ?thesis by (cases r) (auto simp: findStation_def)
qed

lemma findStation_nullptr:
  "findStation b sname = Inr nullptr \<longleftrightarrow> first_named (stations b) (entries b) sname 0 = Inr None"
proof
  assume "findStation b sname = Inr nullptr"
  then show "first_named (stations b) (entries b) sname 0 = Inr None"
    by (auto simp: findStation_def named_station_def split: sum.splits option.splits
        dest!: first_named_Some)
next
  assume "first_named (stations b) (entries b) sname 0 = Inr None"
  then show "findStation b sname = Inr nullptr" by (simp add: findStation_def)
qed

subsection \<open>Moving a station to the front\<close>

lemma remove_middle: "LinkedList_remove (xs @ p # ys) (length xs) = (True, xs @ ys)"
  by (simp add: LinkedList_remove_def)

lemma moveStationToFront_found:
  assumes "first_named (stations b) (entries b) sname 0 = Inr (Some (k, p))"
  shows "\<exists>xs ys. entries b = xs @ p # ys \<and> named_station (stations b) sname p
           \<and> (\<forall>x \<in> set xs. \<not> named_station (stations b) sname x)
           \<and> moveStationToFront b sname = Inr (True, b\<lparr>entries := p # xs @ ys\<rparr>)"
proof -
  from first_named_Some[OF assms] obtain xs ys where
    es: "entries b = xs @ p # ys" and k: "k = length xs" and p: "named_station (stations b) sname p"
    and xs: "\<forall>x \<in> set xs. live_or_null (stations b) x \<and> \<not> named_station (stations b) sname x"
    by auto
  have "moveStationToFront b sname = Inr (True, b\<lparr>entries := p # xs @ ys\<rparr>)"
    using assms by (simp add: moveStationToFront_def es k remove_middle LinkedList_insert_def)
  with es p xs show ?thesis by blast
qed

text \<open>
  C9. If \<^verbatim>\<open>moveStationToFront(X)\<close> returns true, the list was \<open>xs @ p # ys\<close>, where
  \<open>p\<close> is the first entry whose station is named \<open>X\<close>, and it is now \<open>p # xs @ ys\<close>:
  the station is at index 0 and all other entries are in the order they had; no object
  has changed. On a valid manager with no station named \<open>X\<close> the call returns false and
  the state is unchanged, and with a station named \<open>X\<close> it returns true.
\<close>

theorem moveStationToFront_order:
  "(\<forall>b'. moveStationToFront b sname = Inr (True, b') \<longrightarrow>
      (\<exists>xs p ys. entries b = xs @ p # ys \<and> named_station (stations b) sname p
         \<and> (\<forall>x \<in> set xs. \<not> named_station (stations b) sname x)
         \<and> b' = b\<lparr>entries := p # xs @ ys\<rparr>))
   \<and> (valid_manager b \<and> (\<forall>p \<in> set (entries b). \<not> named_station (stations b) sname p) \<longrightarrow>
        moveStationToFront b sname = Inr (False, b))
   \<and> (valid_manager b \<and> (\<exists>p \<in> set (entries b). named_station (stations b) sname p) \<longrightarrow>
        (\<exists>b'. moveStationToFront b sname = Inr (True, b')))"
proof (intro conjI allI impI)
  fix b'
  assume moved: "moveStationToFront b sname = Inr (True, b')"
  then obtain k p where "first_named (stations b) (entries b) sname 0 = Inr (Some (k, p))"
    by (auto simp: moveStationToFront_def split: sum.splits option.splits)
  from moveStationToFront_found[OF this] moved
  show "\<exists>xs p ys. entries b = xs @ p # ys \<and> named_station (stations b) sname p
         \<and> (\<forall>x \<in> set xs. \<not> named_station (stations b) sname x)
         \<and> b' = b\<lparr>entries := p # xs @ ys\<rparr>"
    by auto
next
  assume "valid_manager b \<and> (\<forall>p \<in> set (entries b). \<not> named_station (stations b) sname p)"
  then have "\<forall>x \<in> set (entries b). live_or_null (stations b) x \<and> \<not> named_station (stations b) sname x"
    by (simp add: valid_manager_def)
  then have "first_named (stations b) (entries b) sname 0 = Inr None" by (rule first_named_none)
  then show "moveStationToFront b sname = Inr (False, b)" by (simp add: moveStationToFront_def)
next
  assume a: "valid_manager b \<and> (\<exists>p \<in> set (entries b). named_station (stations b) sname p)"
  then have "\<forall>x \<in> set (entries b). live_or_null (stations b) x" by (simp add: valid_manager_def)
  from first_named_exists[OF this] a obtain k q
    where "first_named (stations b) (entries b) sname 0 = Inr (Some (k, q))" by blast
  from moveStationToFront_found[OF this]
  show "\<exists>b'. moveStationToFront b sname = Inr (True, b')" by blast
qed

theorem moveStationToFront_order_witness:
  "moveStationToFront kitchen ''Prep'' = Inr (True, kitchen\<lparr>entries := [Addr 11, Addr 12, Addr 10]\<rparr>)
   \<and> (\<exists>xs p ys. entries kitchen = xs @ p # ys \<and> named_station (stations kitchen) ''Prep'' p
         \<and> list_all (\<lambda>x. \<not> named_station (stations kitchen) ''Prep'' x) xs
         \<and> kitchen\<lparr>entries := [Addr 11, Addr 12, Addr 10]\<rparr> = kitchen\<lparr>entries := p # xs @ ys\<rparr>)
   \<and> valid_manager kitchen
   \<and> list_all (\<lambda>p. \<not> named_station (stations kitchen) ''Bar'' p) (entries kitchen)
   \<and> moveStationToFront kitchen ''Bar'' = Inr (False, kitchen)
   \<and> list_ex (named_station (stations kitchen) ''Grill'') (entries kitchen)
   \<and> (\<exists>b'. moveStationToFront kitchen ''Grill'' = Inr (True, b'))"
proof -
  have moved: "moveStationToFront kitchen ''Prep''
                 = Inr (True, kitchen\<lparr>entries := [Addr 11, Addr 12, Addr 10]\<rparr>)"
    by (simp add: moveStationToFront_def LinkedList_remove_def LinkedList_insert_def example_defs)
  have valid: "valid_manager kitchen"
    by (simp add: valid_manager_def live_or_null_def example_defs)
  have no_bar: "\<forall>p \<in> set (entries kitchen). \<not> named_station (stations kitchen) ''Bar'' p"
    by (simp add: named_station_def example_defs)
  have a_grill: "\<exists>p \<in> set (entries kitchen). named_station (stations kitchen) ''Grill'' p"
    by (simp add: named_station_def example_defs)
  from moveStationToFront_order[of kitchen "''Prep''"] moved
  have 1: "\<exists>xs p ys. entries kitchen = xs @ p # ys \<and> named_station (stations kitchen) ''Prep'' p
         \<and> list_all (\<lambda>x. \<not> named_station (stations kitchen) ''Prep'' x) xs
         \<and> kitchen\<lparr>entries := [Addr 11, Addr 12, Addr 10]\<rparr> = kitchen\<lparr>entries := p # xs @ ys\<rparr>"
    unfolding list_all_iff by blast
  from moveStationToFront_order[of kitchen "''Bar''"] valid no_bar
  have 2: "moveStationToFront kitchen ''Bar'' = Inr (False, kitchen)" by blast
  from moveStationToFront_order[of kitchen "''Grill''"] valid a_grill
  have 3: "\<exists>b'. moveStationToFront kitchen ''Grill'' = Inr (True, b')" by blast
  from moved 1 valid no_bar 2 a_grill 3 show ?thesis
    unfolding list_all_iff list_ex_iff by blast
qed

subsection \<open>Merges that are refused\<close>

text \<open>
  C5. On a valid manager \<^verbatim>\<open>mergeStations(A, A)\<close> returns false, and so does
  \<^verbatim>\<open>mergeStations(A, X)\<close> when \<^verbatim>\<open>findStation(X)\<close> is null, which it is when no
  station is named \<open>X\<close>; the state returned is the state given: the list and every
  object are unchanged.
\<close>

theorem mergeStations_refuses:
  assumes "valid_manager b"
  shows "mergeStations b sname sname = Inr (False, b)
       \<and> (findStation b other = Inr nullptr \<longrightarrow> mergeStations b sname other = Inr (False, b))
       \<and> ((\<forall>p \<in> set (entries b). \<not> named_station (stations b) other p) \<longrightarrow>
            findStation b other = Inr nullptr)"
proof (intro conjI impI)
  from findStation_total[OF assms] obtain p where p: "findStation b sname = Inr p" by blast
  then show "mergeStations b sname sname = Inr (False, b)" by (simp add: mergeStations_def)
  assume "findStation b other = Inr nullptr"
  with p show "mergeStations b sname other = Inr (False, b)" by (simp add: mergeStations_def)
next
  assume "\<forall>p \<in> set (entries b). \<not> named_station (stations b) other p"
  with assms have "\<forall>x \<in> set (entries b). live_or_null (stations b) x \<and> \<not> named_station (stations b) other x"
    by (simp add: valid_manager_def)
  then have "first_named (stations b) (entries b) other 0 = Inr None" by (rule first_named_none)
  then show "findStation b other = Inr nullptr" by (simp add: findStation_def)
qed

theorem mergeStations_refuses_witness:
  "valid_manager kitchen
   \<and> mergeStations kitchen ''Grill'' ''Grill'' = Inr (False, kitchen)
   \<and> list_all (\<lambda>p. \<not> named_station (stations kitchen) ''Bar'' p) (entries kitchen)
   \<and> findStation kitchen ''Bar'' = Inr nullptr
   \<and> mergeStations kitchen ''Grill'' ''Bar'' = Inr (False, kitchen)"
proof -
  have valid: "valid_manager kitchen"
    by (simp add: valid_manager_def live_or_null_def example_defs)
  have no_bar: "\<forall>p \<in> set (entries kitchen). \<not> named_station (stations kitchen) ''Bar'' p"
    by (simp add: named_station_def example_defs)
  note inst = mergeStations_refuses[OF valid, of "''Grill''" "''Bar''"]
  from inst no_bar have null: "findStation kitchen ''Bar'' = Inr nullptr" by blast
  with inst have "mergeStations kitchen ''Grill'' ''Bar'' = Inr (False, kitchen)" by blast
  with inst valid no_bar null show ?thesis unfolding list_all_iff by blast
qed

subsection \<open>Merges that succeed\<close>

lemma already_assigned_iff: "already_assigned ps dish \<longleftrightarrow> dish \<in> set ps"
  by (induction ps) auto

lemma assign_all_fields:
  "station_name (assign_all s ps) = station_name s"
  "ingredients_stock (assign_all s ps) = ingredients_stock s"
  "set (dishes (assign_all s ps)) = set (dishes s) \<union> set ps"
  by (induction ps arbitrary: s) (auto simp: assignDishToStation_def already_assigned_iff)

lemma stock_total_replenish_stock:
  "stock_total (replenish_stock stock i) n = stock_total stock n + (if name i = n then quantity i else 0)"
  by (induction stock) (auto simp: stock_total_def)

lemma replenish_all_fields:
  "station_name (replenish_all s is) = station_name s"
  "dishes (replenish_all s is) = dishes s"
  "stock_total (ingredients_stock (replenish_all s is)) n
     = stock_total (ingredients_stock s) n + stock_total is n"
proof (induction "is" arbitrary: s)
  case Nil
  { case 1 show ?case by simp }
  { case 2 show ?case by simp }
  { case 3 show ?case by (simp add: stock_total_def) }
next
  case (Cons i "is")
  { case 1 show ?case by (simp add: Cons.IH(1) replenishStationIngredients_def) }
  { case 2 show ?case by (simp add: Cons.IH(2) replenishStationIngredients_def) }
  { case 3 show ?case
      by (simp add: Cons.IH(3) replenishStationIngredients_def stock_total_replenish_stock)
         (simp add: stock_total_def) }
qed

lemma first_named_names:
  "\<forall>a. map_option station_name (sh a) = map_option station_name (sh' a) \<Longrightarrow>
   first_named sh ps n i = first_named sh' ps n i"
proof (induction ps arbitrary: i)
  case Nil
  then show ?case by simp
next
  case (Cons p ps)
  show ?case
  proof (cases p)
    case nullptr
    with Cons show ?thesis by simp
  next
    case (Addr a)
    from Cons.prems have "map_option station_name (sh a) = map_option station_name (sh' a)" by blast
    with Addr Cons.IH[OF Cons.prems] show ?thesis
      by (cases "sh a"; cases "sh' a") auto
  qed
qed

lemma delete_station_Addr:
  "delete_station b (Addr a) = Inr b' \<Longrightarrow>
   entries b' = entries b \<and> stations b' = (stations b)(a := None)"
  by (auto split: option.splits sum.splits)

lemma findStation_Addr:
  "findStation b sname = Inr (Addr a) \<Longrightarrow>
   \<exists>k. first_named (stations b) (entries b) sname 0 = Inr (Some (k, Addr a))"
  by (auto simp: findStation_def split: sum.splits option.splits)

lemma mergeStations_success:
  assumes "mergeStations b sname1 sname2 = Inr (True, b')"
  shows "\<exists>a1 a2 s1 s2 i xs ys.
           first_named (stations b) (entries b) sname1 0 = Inr (Some (i, Addr a1))
         \<and> findStation b sname1 = Inr (Addr a1) \<and> findStation b sname2 = Inr (Addr a2)
         \<and> a1 \<noteq> a2 \<and> stations b a1 = Some s1 \<and> stations b a2 = Some s2
         \<and> entries b = xs @ Addr a2 # ys \<and> i < length (entries b) \<and> entries b ! i = Addr a1
         \<and> (\<forall>x \<in> set xs. live_or_null (stations b) x \<and> \<not> named_station (stations b) sname2 x)
         \<and> entries b' = xs @ ys
         \<and> stations b' = (stations b)(a1 \<mapsto> merged s1 s2, a2 := None)"
proof -
  from assms obtain p1 p2 where f1: "findStation b sname1 = Inr p1"
    and f2: "findStation b sname2 = Inr p2"
    by (auto simp: mergeStations_def split: sum.splits)
  from assms f1 f2 have cond: "p1 \<noteq> nullptr" "p2 \<noteq> nullptr" "p1 \<noteq> p2"
    by (auto simp: mergeStations_def split: if_splits)
  then obtain a1 a2 where p1: "p1 = Addr a1" and p2: "p2 = Addr a2" and ne: "a1 \<noteq> a2"
    by (cases p1; cases p2) auto
  from assms f1 f2 cond obtain s1 s2 where s1: "stations b a1 = Some s1" and s2: "stations b a2 = Some s2"
    by (auto simp: mergeStations_def p1 p2 split: sum.splits option.splits)
  define b1 where "b1 = b\<lparr>stations := (stations b)(a1 \<mapsto> merged s1 s2)\<rparr>"
  from assms f1 f2 ne s1 s2 obtain removed where rem: "removeStation b1 sname2 = Inr (removed, b')"
    by (auto simp: mergeStations_def p1 p2 b1_def merged_def Let_def split: sum.splits)
  from f1 p1 obtain i where i: "first_named (stations b) (entries b) sname1 0 = Inr (Some (i, Addr a1))"
    using findStation_Addr by blast
  from f2 p2 obtain j where j: "first_named (stations b) (entries b) sname2 0 = Inr (Some (j, Addr a2))"
    using findStation_Addr by blast
  from first_named_Some[OF j] obtain xs ys where es: "entries b = xs @ Addr a2 # ys"
    and jl: "j = length xs"
    and xs: "\<forall>x \<in> set xs. live_or_null (stations b) x \<and> \<not> named_station (stations b) sname2 x"
    by auto
  have "station_name (merged s1 s2) = station_name s1"
    by (simp add: merged_def replenish_all_fields assign_all_fields)
  with s1 have "\<forall>a. map_option station_name (stations b a)
                  = map_option station_name (((stations b)(a1 \<mapsto> merged s1 s2)) a)"
    by simp
  from first_named_names[OF this, of "entries b" sname2 0] j
  have "first_named ((stations b)(a1 \<mapsto> merged s1 s2)) (entries b) sname2 0
          = Inr (Some (j, Addr a2))"
    by (simp only:)
  then have j1: "first_named (stations b1) (entries b1) sname2 0 = Inr (Some (j, Addr a2))"
    by (simp add: b1_def)
  from rem j1 obtain bd where del: "delete_station b1 (Addr a2) = Inr bd"
    and b': "b' = bd\<lparr>entries := snd (LinkedList_remove (entries bd) j)\<rparr>"
    by (auto simp: removeStation_def split: sum.splits prod.splits)
  from delete_station_Addr[OF del] have bd: "entries bd = entries b"
    "stations bd = (stations b)(a1 \<mapsto> merged s1 s2, a2 := None)"
    by (simp_all add: b1_def)
  from b' bd es jl have "entries b' = xs @ ys" "stations b' = (stations b)(a1 \<mapsto> merged s1 s2, a2 := None)"
    by (simp_all add: remove_middle)
  moreover from first_named_Some[OF i] have "i < length (entries b)" "entries b ! i = Addr a1"
    by auto
  ultimately show ?thesis using i f1 f2 p1 p2 ne s1 s2 es xs by blast
qed

lemma nth_after_removal:
  assumes "i < length (xs @ p # ys)" and "i \<noteq> length xs"
  shows "(xs @ ys) ! (if i < length xs then i else i - 1) = (xs @ p # ys) ! i"
proof (cases "i < length xs")
  case True
  then show ?thesis by (simp add: nth_append)
next
  case False
  with assms(2) have "length xs < i" by simp
  then obtain k where "i = Suc (length xs + k)" using less_iff_Suc_add by auto
  then show ?thesis by (simp add: nth_append)
qed

text \<open>
  C10. After a successful \<^verbatim>\<open>mergeStations(A, B)\<close> the list of the manager is the
  list before the merge without the first entry whose station is named \<open>B\<close>: it was
  \<open>xs @ p # ys\<close> and is \<open>xs @ ys\<close>. The entry of the first station, found at position
  \<open>i\<close> before the merge, is at position \<open>i\<close> when it stood before \<open>p\<close> and at
  position \<open>i - 1\<close> when it stood behind it.
\<close>

theorem mergeStations_order:
  assumes "mergeStations b sname1 sname2 = Inr (True, b')"
  shows "\<exists>xs p ys i q.
           entries b = xs @ p # ys \<and> named_station (stations b) sname2 p
         \<and> (\<forall>x \<in> set xs. \<not> named_station (stations b) sname2 x)
         \<and> entries b' = xs @ ys
         \<and> first_named (stations b) (entries b) sname1 0 = Inr (Some (i, q))
         \<and> i < length (entries b) \<and> entries b ! i = q \<and> i \<noteq> length xs
         \<and> entries b' ! (if i < length xs then i else i - 1) = q"
proof -
  from mergeStations_success[OF assms] obtain a1 a2 s1 s2 i xs ys where
    i: "first_named (stations b) (entries b) sname1 0 = Inr (Some (i, Addr a1))"
    and ne: "a1 \<noteq> a2" and s2: "stations b a2 = Some s2"
    and f2: "findStation b sname2 = Inr (Addr a2)"
    and es: "entries b = xs @ Addr a2 # ys"
    and il: "i < length (entries b)" and ei: "entries b ! i = Addr a1"
    and xs: "\<forall>x \<in> set xs. live_or_null (stations b) x \<and> \<not> named_station (stations b) sname2 x"
    and es': "entries b' = xs @ ys"
    by blast
  from findStation_Addr[OF f2] first_named_Some have p: "named_station (stations b) sname2 (Addr a2)"
    by blast
  from es ei ne have neq: "i \<noteq> length xs" by auto
  from il es have "i < length (xs @ Addr a2 # ys)" by simp
  from nth_after_removal[OF this neq] es ei es'
  have "entries b' ! (if i < length xs then i else i - 1) = Addr a1" by (simp only:)
  with neq i es p xs es' il ei show ?thesis by blast
qed

theorem mergeStations_order_witness:
  "mergeStations kitchen ''Grill'' ''Prep'' = Inr (True, kitchen_merged)
   \<and> (\<exists>xs p ys i q.
           entries kitchen = xs @ p # ys \<and> named_station (stations kitchen) ''Prep'' p
         \<and> (\<forall>x \<in> set xs. \<not> named_station (stations kitchen) ''Prep'' x)
         \<and> entries kitchen_merged = xs @ ys
         \<and> first_named (stations kitchen) (entries kitchen) ''Grill'' 0 = Inr (Some (i, q))
         \<and> i < length (entries kitchen) \<and> entries kitchen ! i = q \<and> i \<noteq> length xs
         \<and> entries kitchen_merged ! (if i < length xs then i else i - 1) = q)"
proof -
  have m: "mergeStations kitchen ''Grill'' ''Prep'' = Inr (True, kitchen_merged)"
    by (simp add: mergeStations_def findStation_def removeStation_def LinkedList_remove_def
        assignDishToStation_def replenishStationIngredients_def example_defs fun_eq_iff)
  from m mergeStations_order[OF m] show ?thesis by blast
qed

subsection \<open>The merged station\<close>

lemma removal_keeps_other:
  "xs @ p # ys = xs' @ q # ys' \<Longrightarrow> p \<noteq> q \<Longrightarrow>
   \<exists>xs'' ys''. xs @ ys = xs'' @ q # ys'' \<and> set xs'' \<subseteq> set xs'"
proof (induction xs arbitrary: xs')
  case Nil
  then obtain xs1 where "xs' = p # xs1" "ys = xs1 @ q # ys'" by (cases xs') auto
  then have "[] @ ys = xs1 @ q # ys' \<and> set xs1 \<subseteq> set xs'" by auto
  then show ?case by blast
next
  case (Cons x xs)
  show ?case
  proof (cases xs')
    case Nil
    with Cons.prems have "(x # xs) @ ys = [] @ q # (xs @ ys) \<and> set ([]::'a list) \<subseteq> set xs'" by simp
    then show ?thesis by blast
  next
    case (Cons x' xs1)
    with Cons.prems have x: "x' = x" and eq: "xs @ p # ys = xs1 @ q # ys'" by simp_all
    from Cons.IH[OF eq Cons.prems(2)] obtain xs2 ys2 where
      "xs @ ys = xs2 @ q # ys2" "set xs2 \<subseteq> set xs1" by blast
    with Cons x have "(x # xs) @ ys = (x # xs2) @ q # ys2 \<and> set (x # xs2) \<subseteq> set xs'" by auto
    then show ?thesis by blast
  qed
qed

lemma only_one_named:
  assumes "length (filter P (xs @ p # ys)) = 1" and "P p"
  shows "\<forall>x \<in> set (xs @ ys). \<not> P x"
proof -
  from assms have "filter P xs = []" "filter P ys = []" by simp_all
  then show ?thesis by (auto simp: filter_empty_conv)
qed

lemma after_merge_entry:
  assumes "sh a1 = Some s1" and "sh a2 = Some s2" and "station_name m = station_name s1"
      and "x \<noteq> Addr a2" and "live_or_null sh x"
  shows "live_or_null (sh(a1 \<mapsto> m, a2 := None)) x"
    and "named_station (sh(a1 \<mapsto> m, a2 := None)) n x = named_station sh n x"
  using assms by (cases x; auto simp: live_or_null_def named_station_def split: option.splits)+

text \<open>
  C4, as amended. Let \<^verbatim>\<open>mergeStations(A, B)\<close> succeed. Then the names resolved to
  two different stations; after the merge the roster of station A contains every pointer
  of both rosters, and for every name its stock holds the sum of what the two stocks
  held (the sum of \<^verbatim>\<open>int\<close>, as \<^verbatim>\<open>+=\<close> computes it). \<^verbatim>\<open>findStation(A)\<close> is
  the station it was when the pointer of the removed station does not occur in the list
  any more. When the manager was valid and exactly one entry of the list was a station
  named \<open>B\<close>, \<^verbatim>\<open>findStation(B)\<close> is null after the merge.
\<close>

theorem mergeStations_result:
  assumes merge: "mergeStations b sname1 sname2 = Inr (True, b')"
  shows "\<exists>a1 a2 s1 s2 s1'.
           findStation b sname1 = Inr (Addr a1) \<and> stations b a1 = Some s1
         \<and> findStation b sname2 = Inr (Addr a2) \<and> stations b a2 = Some s2 \<and> a1 \<noteq> a2
         \<and> stations b' a1 = Some s1'
         \<and> set (dishes s1) \<union> set (dishes s2) \<subseteq> set (dishes s1')
         \<and> (\<forall>n. stock_total (ingredients_stock s1') n
                  = stock_total (ingredients_stock s1) n + stock_total (ingredients_stock s2) n)
         \<and> (Addr a2 \<notin> set (entries b') \<longrightarrow> findStation b' sname1 = Inr (Addr a1))
         \<and> (valid_manager b
              \<and> length (filter (named_station (stations b) sname2) (entries b)) = 1
            \<longrightarrow> findStation b' sname2 = Inr nullptr)"
proof -
  from mergeStations_success[OF merge] obtain a1 a2 s1 s2 i xs ys where
    i: "first_named (stations b) (entries b) sname1 0 = Inr (Some (i, Addr a1))"
    and f1: "findStation b sname1 = Inr (Addr a1)" and f2: "findStation b sname2 = Inr (Addr a2)"
    and ne: "a1 \<noteq> a2" and s1: "stations b a1 = Some s1" and s2: "stations b a2 = Some s2"
    and es: "entries b = xs @ Addr a2 # ys"
    and es': "entries b' = xs @ ys"
    and sh': "stations b' = (stations b)(a1 \<mapsto> merged s1 s2, a2 := None)"
    by blast
  let ?sh = "stations b" and ?sh' = "(stations b)(a1 \<mapsto> merged s1 s2, a2 := None)"
  have nm: "station_name (merged s1 s2) = station_name s1"
    by (simp add: merged_def replenish_all_fields assign_all_fields)
  from findStation_Addr[OF f2] first_named_Some have p2: "named_station ?sh sname2 (Addr a2)"
    by blast
  \<comment> \<open>the roster and the stock of the first station\<close>
  from ne have obj: "stations b' a1 = Some (merged s1 s2)" by (simp add: sh')
  have roster: "set (dishes s1) \<union> set (dishes s2) \<subseteq> set (dishes (merged s1 s2))"
    by (simp add: merged_def replenish_all_fields assign_all_fields)
  have stock: "\<forall>n. stock_total (ingredients_stock (merged s1 s2)) n
                  = stock_total (ingredients_stock s1) n + stock_total (ingredients_stock s2) n"
    by (simp add: merged_def replenish_all_fields assign_all_fields)
  \<comment> \<open>the first name still finds the first station\<close>
  have still: "findStation b' sname1 = Inr (Addr a1)" if not_a2: "Addr a2 \<notin> set (entries b')"
  proof -
    from first_named_Some[OF i] obtain xs1 ys1 where es1: "entries b = xs1 @ Addr a1 # ys1"
      and p1: "named_station ?sh sname1 (Addr a1)"
      and xs1: "\<forall>x \<in> set xs1. live_or_null ?sh x \<and> \<not> named_station ?sh sname1 x"
      by auto
    from es es1 have "xs @ Addr a2 # ys = xs1 @ Addr a1 # ys1" by simp
    from removal_keeps_other[OF this] ne obtain xs2 ys2
      where split: "xs @ ys = xs2 @ Addr a1 # ys2" and sub: "set xs2 \<subseteq> set xs1" by auto
    from split have "set xs2 \<subseteq> set (xs @ ys)" by (metis set_append Un_upper1)
    with not_a2 es' have "\<forall>x \<in> set xs2. x \<noteq> Addr a2" by auto
    with sub xs1 have "\<forall>x \<in> set xs2. live_or_null ?sh' x \<and> \<not> named_station ?sh' sname1 x"
      using after_merge_entry[OF s1 s2 nm] by blast
    moreover from p1 s1 nm ne have "named_station ?sh' sname1 (Addr a1)"
      by (simp add: named_station_def)
    ultimately have "first_named ?sh' (xs2 @ Addr a1 # ys2) sname1 0
                       = Inr (Some (0 + length xs2, Addr a1))"
      by (rule first_named_split)
    then show ?thesis by (simp add: findStation_def es' sh' split)
  qed
  \<comment> \<open>the second name is gone\<close>
  have gone: "findStation b' sname2 = Inr nullptr"
    if valid: "valid_manager b"
      and only: "length (filter (named_station (stations b) sname2) (entries b)) = 1"
  proof -
    from only es p2 have rest: "\<forall>x \<in> set (xs @ ys). \<not> named_station ?sh sname2 x"
      using only_one_named by metis
    then have not_a2: "\<forall>x \<in> set (xs @ ys). x \<noteq> Addr a2" using p2 by blast
    from valid es have live: "\<forall>x \<in> set (xs @ ys). live_or_null ?sh x"
      by (auto simp: valid_manager_def)
    have "\<forall>x \<in> set (xs @ ys). live_or_null ?sh' x \<and> \<not> named_station ?sh' sname2 x"
      using after_merge_entry[OF s1 s2 nm] not_a2 live rest by blast
    then have "first_named ?sh' (xs @ ys) sname2 0 = Inr None" by (rule first_named_none)
    then show ?thesis by (simp add: findStation_def es' sh')
  qed
  from f1 s1 f2 s2 ne obj roster stock still gone show ?thesis by blast
qed

theorem mergeStations_result_witness:
  "mergeStations kitchen ''Grill'' ''Prep'' = Inr (True, kitchen_merged)
   \<and> findStation kitchen ''Grill'' = Inr (Addr 10) \<and> stations kitchen 10 = Some (grill [tomato 5])
   \<and> findStation kitchen ''Prep'' = Inr (Addr 11) \<and> stations kitchen 11 = Some prep
   \<and> stations kitchen_merged 10 = Some grill_and_prep
   \<and> set (dishes (grill [tomato 5])) \<union> set (dishes prep) \<subseteq> set (dishes grill_and_prep)
   \<and> stock_total (ingredients_stock grill_and_prep) ''Tomato''
       = stock_total (ingredients_stock (grill [tomato 5])) ''Tomato''
         + stock_total (ingredients_stock prep) ''Tomato''
   \<and> stock_total (ingredients_stock grill_and_prep) ''Tomato'' = 6
   \<and> Addr 11 \<notin> set (entries kitchen_merged)
   \<and> findStation kitchen_merged ''Grill'' = Inr (Addr 10)
   \<and> valid_manager kitchen
   \<and> length (filter (named_station (stations kitchen) ''Prep'') (entries kitchen)) = 1
   \<and> findStation kitchen_merged ''Prep'' = Inr nullptr"
proof -
  have m: "mergeStations kitchen ''Grill'' ''Prep'' = Inr (True, kitchen_merged)"
    by (simp add: mergeStations_def findStation_def removeStation_def LinkedList_remove_def
        assignDishToStation_def replenishStationIngredients_def example_defs fun_eq_iff)
  have grill: "findStation kitchen ''Grill'' = Inr (Addr 10)"
    and prep: "findStation kitchen ''Prep'' = Inr (Addr 11)"
    by (simp_all add: findStation_def example_defs)
  have g: "stations kitchen 10 = Some (grill [tomato 5])"
    and p: "stations kitchen 11 = Some prep"
    and gp: "stations kitchen_merged 10 = Some grill_and_prep"
    by (simp_all add: kitchen_def kitchen_merged_def)
  have six: "stock_total (ingredients_stock grill_and_prep) ''Tomato'' = 6"
    by (simp add: stock_total_def example_defs)
  have absent: "Addr 11 \<notin> set (entries kitchen_merged)"
    by (simp add: kitchen_merged_def)
  have valid: "valid_manager kitchen"
    by (simp add: valid_manager_def live_or_null_def example_defs)
  have one: "length (filter (named_station (stations kitchen) ''Prep'') (entries kitchen)) = 1"
    by (simp add: named_station_def example_defs)
  from mergeStations_result[OF m] obtain a1 a2 s1 s2 s1' where
    f1: "findStation kitchen ''Grill'' = Inr (Addr a1)" and s1: "stations kitchen a1 = Some s1"
    and f2: "findStation kitchen ''Prep'' = Inr (Addr a2)" and s2: "stations kitchen a2 = Some s2"
    and s1': "stations kitchen_merged a1 = Some s1'"
    and roster: "set (dishes s1) \<union> set (dishes s2) \<subseteq> set (dishes s1')"
    and stock: "\<forall>n. stock_total (ingredients_stock s1') n
                  = stock_total (ingredients_stock s1) n + stock_total (ingredients_stock s2) n"
    and still: "Addr a2 \<notin> set (entries kitchen_merged) \<longrightarrow>
                  findStation kitchen_merged ''Grill'' = Inr (Addr a1)"
    and gone: "valid_manager kitchen
                 \<and> length (filter (named_station (stations kitchen) ''Prep'') (entries kitchen)) = 1
               \<longrightarrow> findStation kitchen_merged ''Prep'' = Inr nullptr"
    by blast
  from f1 grill have a1: "a1 = 10" by simp
  from f2 prep have a2: "a2 = 11" by simp
  from s1 g a1 have e1: "s1 = grill [tomato 5]" by simp
  from s2 p a2 have e2: "s2 = prep" by simp
  from s1' gp a1 have e3: "s1' = grill_and_prep" by simp
  from roster have r: "set (dishes (grill [tomato 5])) \<union> set (dishes prep) \<subseteq> set (dishes grill_and_prep)"
    unfolding e1 e2 e3 .
  from stock have t: "stock_total (ingredients_stock grill_and_prep) ''Tomato''
       = stock_total (ingredients_stock (grill [tomato 5])) ''Tomato''
         + stock_total (ingredients_stock prep) ''Tomato''"
    unfolding e1 e2 e3 by blast
  from still absent have st: "findStation kitchen_merged ''Grill'' = Inr (Addr 10)"
    unfolding a1 a2 by blast
  from gone valid one have gn: "findStation kitchen_merged ''Prep'' = Inr nullptr" by blast
  from m grill g prep p gp r t six absent st valid one gn show ?thesis by (intro conjI)
qed

text \<open>
  C4 as stated fails when two stations have the second name: the merge removes the first
  of them, and \<^verbatim>\<open>findStation\<close> then finds the other.
\<close>

theorem mergeStations_result_counterexample:
  "valid_manager crowded_kitchen
   \<and> mergeStations crowded_kitchen ''Grill'' ''Prep'' = Inr (True, crowded_kitchen_merged)
   \<and> findStation crowded_kitchen_merged ''Prep'' = Inr (Addr 13)
   \<and> Addr 13 \<noteq> nullptr"
  by (simp add: valid_manager_def live_or_null_def mergeStations_def findStation_def
      removeStation_def LinkedList_remove_def assignDishToStation_def
      replenishStationIngredients_def example_defs fun_eq_iff)

text \<open>
  The destructor of the second station has freed its dishes, whose pointers are now in
  the roster of the first station: looking for a dish behind them is a use after free.
\<close>

lemma merged_roster_dangles:
  "canCompleteOrder (dish_store kitchen_merged) grill_and_prep ''Salad'' = Inl UseAfterFree"
  by (simp add: canCompleteOrder_def example_defs)

end
